theory Spec2Isabelle
  imports
    Main
    "HOL-Library.AList"
    "HOL-Library.Char_ord"
    "HOL-Library.List_Lexorder"
    "HOL-Library.Monad_Syntax"
begin

section \<open>The vendor merge engine of scripts/merge-all-vendors.py\<close>

text \<open>
  A vendor is a Python dict. The keys the engine reads are typed fields of a record, each
  one optional because a dict may lack the key; reading a missing key (\<open>v['id']\<close>) is the
  value \<open>None\<close> of the option monad, which stands for the \<open>KeyError\<close> of the source.
  Every other top-level key travels in \<open>extras\<close>, an association list in the dict's
  order, and the key \<open>_import_metadata\<close> is the field \<open>import_metadata\<close>. The engine
  moves the values of these keys and never looks into them; \<open>jvalue\<close> stands for them.
  Field values have the types of the data model: strings, a list of strings, an integer
  score, a boolean. Strings are lists of code points below 256, ordered as Python orders
  \<open>str\<close>: lexicographically by code point. The records of the three input lists are
  distinct objects, as \<open>json.load\<close> produces them.
\<close>

datatype jvalue =
    JNull
  | JBool bool
  | JNum int
  | JStr string
  | JList "jvalue list"
  | JObj "(string \<times> jvalue) list"

record vendor =
  vendor_id :: "string option"
  domains :: "string list option"
  name :: "string option"
  company :: "string option"
  category :: "string option"
  gdpr_compliant :: "bool option"
  risk_score :: "int option"
  tier :: "string option"
  extras :: "(string \<times> jvalue) list"
  import_metadata :: "(string \<times> jvalue) list option"

definition VALID_CATEGORIES :: "string list" where
  "VALID_CATEGORIES =
    [''analytics'', ''advertising'', ''social'', ''cdn'', ''payments'', ''chat'',
     ''heatmaps'', ''ab_testing'', ''error_tracking'', ''tag_manager'', ''consent'',
     ''video'', ''fonts'', ''security'', ''push'', ''forms'', ''referral'', ''booking'',
     ''maps'', ''web3'', ''b2b_intelligence'', ''email_marketing'', ''other'']"

subsection \<open>str.lower on code points below 256\<close>

text \<open>
  The cased code points below 256 that \<open>str.lower\<close> changes are A to Z and the Latin-1
  capitals U+00C0 to U+00DE without the multiplication sign U+00D7; each moves up by 32.
\<close>

definition is_upper :: "char \<Rightarrow> bool" where
  "is_upper c =
    (let n = (of_char c :: nat)
     in (65 \<le> n \<and> n \<le> 90) \<or> (192 \<le> n \<and> n \<le> 222 \<and> n \<noteq> 215))"

definition lower_char :: "char \<Rightarrow> char" where
  "lower_char c = (if is_upper c then char_of ((of_char c :: nat) + 32) else c)"

definition lower :: "string \<Rightarrow> string" where
  "lower d = map lower_char d"

definition lowercase :: "string \<Rightarrow> bool" where
  "lowercase d = (\<forall>c \<in> set d. \<not> is_upper c)"

subsection \<open>normalize_vendor\<close>

text \<open>\<open>dict.setdefault(key, default)\<close> on one optional field.\<close>

definition setdefault :: "'a option \<Rightarrow> 'a \<Rightarrow> 'a" where
  "setdefault field dflt = (case field of None \<Rightarrow> dflt | Some x \<Rightarrow> x)"

definition normalize_vendor :: "vendor \<Rightarrow> vendor" where
  "normalize_vendor vendor =
    (let i = setdefault (vendor_id vendor) ''unknown'';
         ds = setdefault (domains vendor) [];
         n = setdefault (name vendor) i;
         co = setdefault (company vendor) ''Unknown'';
         ca = setdefault (category vendor) ''other'';
         g = setdefault (gdpr_compliant vendor) False;
         r = setdefault (risk_score vendor) 5
     in vendor
        \<lparr> vendor_id := Some i,
          domains := Some (map lower (filter (\<lambda>d. d \<noteq> []) ds)),
          name := Some n,
          company := Some co,
          category := Some (if ca \<in> set VALID_CATEGORIES then ca else ''other''),
          gdpr_compliant := Some g,
          risk_score := Some (max 1 (min 10 r)) \<rparr>)"

subsection \<open>normalize_vendor on the dict that json.load delivers\<close>

text \<open>
  The typed record above leaves out what \<open>normalize_vendor\<close> does to a dict whose values
  are not of the types of the data model. Here the record is the dict itself, an
  association list from keys to JSON values in insertion order, and every statement of
  lines 68 to 84 is followed as Python evaluates it, the exceptions included:
  \<open>max(1, min(10, x))\<close> compares \<open>x\<close> with an integer and raises \<open>TypeError\<close> unless \<open>x\<close>
  is a number (a boolean counts as 0 or 1, and the result is then the integer 1);
  \<open>x not in VALID_CATEGORIES\<close> hashes \<open>x\<close> and raises \<open>TypeError\<close> for a list or a dict;
  the comprehension of line 84 iterates the value (a list, the characters of a string,
  the keys of a dict; \<open>TypeError\<close> for \<open>None\<close>, a boolean or a number), skips the falsy
  entries and calls \<open>lower\<close> on the others, which raises \<open>AttributeError\<close> for an entry
  that is not a string. JSON numbers are integers here; a number with a fraction passes
  through \<open>min\<close> and \<open>max\<close> without an exception and is outside this model.
\<close>

datatype error = TypeError | AttributeError | KeyError

type_synonym pydict = "(string \<times> jvalue) list"

text \<open>\<open>d.setdefault(k, dflt)\<close> and \<open>d[k]\<close>.\<close>

definition dict_setdefault :: "pydict \<Rightarrow> string \<Rightarrow> jvalue \<Rightarrow> pydict" where
  "dict_setdefault d k dflt = (case map_of d k of None \<Rightarrow> d @ [(k, dflt)] | Some x \<Rightarrow> d)"

definition dict_get :: "pydict \<Rightarrow> string \<Rightarrow> error + jvalue" where
  "dict_get d k = (case map_of d k of None \<Rightarrow> Inl KeyError | Some x \<Rightarrow> Inr x)"

text \<open>The truth value of a JSON value, as \<open>if d\<close> tests it.\<close>

fun truth :: "jvalue \<Rightarrow> bool" where
  "truth JNull = False"
| "truth (JBool b) = b"
| "truth (JNum n) = (n \<noteq> 0)"
| "truth (JStr s) = (s \<noteq> [])"
| "truth (JList xs) = (xs \<noteq> [])"
| "truth (JObj kvs) = (kvs \<noteq> [])"

text \<open>Line 77, \<open>max(1, min(10, x))\<close>.\<close>

fun clamp_score :: "jvalue \<Rightarrow> error + jvalue" where
  "clamp_score (JNum n) = Inr (JNum (max 1 (min 10 n)))"
| "clamp_score (JBool b) = Inr (JNum 1)"
| "clamp_score x = Inl TypeError"

text \<open>Line 80, \<open>x in VALID_CATEGORIES\<close>.\<close>

fun in_valid_categories :: "jvalue \<Rightarrow> error + bool" where
  "in_valid_categories (JStr c) = Inr (c \<in> set VALID_CATEGORIES)"
| "in_valid_categories (JList xs) = Inl TypeError"
| "in_valid_categories (JObj kvs) = Inl TypeError"
| "in_valid_categories x = Inr False"

text \<open>Line 84, \<open>for d in x\<close> and \<open>[d.lower() for d in entries if d]\<close>.\<close>

fun iterate :: "jvalue \<Rightarrow> error + jvalue list" where
  "iterate (JList xs) = Inr xs"
| "iterate (JStr s) = Inr (map (\<lambda>c. JStr [c]) s)"
| "iterate (JObj kvs) = Inr (map (\<lambda>kv. JStr (fst kv)) kvs)"
| "iterate x = Inl TypeError"

fun lower_entries :: "jvalue list \<Rightarrow> error + jvalue list" where
  "lower_entries [] = Inr []"
| "lower_entries (d # ds) =
     (if truth d
      then (case d of
              JStr s \<Rightarrow>
                (case lower_entries ds of Inl e \<Rightarrow> Inl e | Inr r \<Rightarrow> Inr (JStr (lower s) # r))
            | _ \<Rightarrow> Inl AttributeError)
      else lower_entries ds)"

definition normalize_vendor_dict :: "pydict \<Rightarrow> error + pydict" where
  "normalize_vendor_dict vendor =
    (let v1 = dict_setdefault vendor ''id'' (JStr ''unknown'');
         v2 = dict_setdefault v1 ''domains'' (JList [])
     in case dict_get v2 ''id'' of
          Inl e \<Rightarrow> Inl e
        | Inr i \<Rightarrow>
     let v3 = dict_setdefault v2 ''name'' i;
         v4 = dict_setdefault v3 ''company'' (JStr ''Unknown'');
         v5 = dict_setdefault v4 ''category'' (JStr ''other'');
         v6 = dict_setdefault v5 ''gdpr_compliant'' (JBool False);
         v7 = dict_setdefault v6 ''risk_score'' (JNum 5)
     in case dict_get v7 ''risk_score'' of
          Inl e \<Rightarrow> Inl e
        | Inr r \<Rightarrow>
     case clamp_score r of
          Inl e \<Rightarrow> Inl e
        | Inr r' \<Rightarrow>
     let v8 = AList.update ''risk_score'' r' v7
     in case dict_get v8 ''category'' of
          Inl e \<Rightarrow> Inl e
        | Inr c \<Rightarrow>
     case in_valid_categories c of
          Inl e \<Rightarrow> Inl e
        | Inr valid \<Rightarrow>
     let v9 = (if \<not> valid then AList.update ''category'' (JStr ''other'') v8 else v8)
     in case dict_get v9 ''domains'' of
          Inl e \<Rightarrow> Inl e
        | Inr ds \<Rightarrow>
     case iterate ds of
          Inl e \<Rightarrow> Inl e
        | Inr entries \<Rightarrow>
     case lower_entries entries of
          Inl e \<Rightarrow> Inl e
        | Inr lowered \<Rightarrow> Inr (AList.update ''domains'' (JList lowered) v9))"

subsection \<open>merge_vendors\<close>

text \<open>
  The two indices of the merge: \<open>domain_to_id\<close> is a dict that is only looked up and
  assigned, a map; \<open>vendors_by_id\<close> is iterated at the end, so it is an association list
  in insertion order, and assigning an existing key replaces the value in place
  (\<open>AList.update\<close>), as a Python dict does.
\<close>

record mstate =
  domain_to_id :: "string \<rightharpoonup> string"
  vendors_by_id :: "(string \<times> vendor) list"

definition init_state :: mstate where
  "init_state = \<lparr> domain_to_id = Map.empty, vendors_by_id = [] \<rparr>"

text \<open>The tier marks of lines 96 to 101: assignment for premium, \<open>setdefault\<close> otherwise.\<close>

definition mark_premium :: "vendor \<Rightarrow> vendor" where
  "mark_premium v = v\<lparr> tier := Some ''premium'' \<rparr>"

definition mark_standard :: "vendor \<Rightarrow> vendor" where
  "mark_standard v = (case tier v of None \<Rightarrow> v\<lparr> tier := Some ''standard'' \<rparr> | Some t \<Rightarrow> v)"

text \<open>\<open>for d in ds: domain_to_id[d] = vid\<close>\<close>

definition register :: "string list \<Rightarrow> string \<Rightarrow> (string \<rightharpoonup> string) \<Rightarrow> (string \<rightharpoonup> string)" where
  "register ds vid idx = fold (\<lambda>d m. m(d \<mapsto> vid)) ds idx"

text \<open>\<open>sorted(list(set(xs)))\<close>\<close>

definition sorted_set :: "string list \<Rightarrow> string list" where
  "sorted_set xs = sort (remdups xs)"

text \<open>Truth value of \<open>matched_id\<close>, which is \<open>None\<close> or a string: the empty string is falsy.\<close>

definition truthy :: "string option \<Rightarrow> bool" where
  "truthy m = (case m of None \<Rightarrow> False | Some i \<Rightarrow> i \<noteq> [])"

text \<open>A loop of the source over a list, each iteration of which may raise.\<close>

fun foldM :: "('s \<Rightarrow> 'a \<Rightarrow> 's option) \<Rightarrow> 'a list \<Rightarrow> 's \<Rightarrow> 's option" where
  "foldM f [] s = Some s"
| "foldM f (x # xs) s = (case f s x of None \<Rightarrow> None | Some s' \<Rightarrow> foldM f xs s')"

text \<open>Pass 1, lines 108 to 113.\<close>

definition premium_step :: "mstate \<Rightarrow> vendor \<Rightarrow> mstate option" where
  "premium_step s v0 = do {
     let v = normalize_vendor v0;
     vid \<leftarrow> vendor_id v;
     ds \<leftarrow> domains v;
     Some \<lparr> domain_to_id = register ds vid (domain_to_id s),
            vendors_by_id = AList.update vid v (vendors_by_id s) \<rparr>
   }"

text \<open>
  Lines 124 to 130: the first domain whose owner has tier premium. The lookup
  \<open>vendors_by_id[existing_id]\<close> raises on a missing key.
\<close>

fun find_premium :: "mstate \<Rightarrow> string list \<Rightarrow> string option option" where
  "find_premium s [] = Some None"
| "find_premium s (domain # rest) =
     (case domain_to_id s domain of
        None \<Rightarrow> find_premium s rest
      | Some existing_id \<Rightarrow>
          (case map_of (vendors_by_id s) existing_id of
             None \<Rightarrow> None
           | Some r \<Rightarrow>
               if tier r = Some ''premium'' then Some (Some existing_id)
               else find_premium s rest))"

text \<open>Lines 144 to 148 and 179 to 183: the owner of the first domain that has one.\<close>

fun first_owner :: "(string \<rightharpoonup> string) \<Rightarrow> string list \<Rightarrow> string option" where
  "first_owner idx [] = None"
| "first_owner idx (domain # rest) =
     (case idx domain of None \<Rightarrow> first_owner idx rest | Some i \<Rightarrow> Some i)"

text \<open>
  Lines 134 to 139 and 187 to 192: the domains of \<open>v\<close> that the matched record does not
  list are added to it and registered; nothing changes when there are none.
\<close>

definition enrich :: "mstate \<Rightarrow> string \<Rightarrow> vendor \<Rightarrow> mstate option" where
  "enrich s matched v = do {
     existing \<leftarrow> map_of (vendors_by_id s) matched;
     vds \<leftarrow> domains v;
     eds \<leftarrow> domains existing;
     let new_domains = filter (\<lambda>d. d \<notin> set eds) vds;
     if new_domains \<noteq> []
     then Some \<lparr> domain_to_id = register new_domains matched (domain_to_id s),
                 vendors_by_id =
                   AList.update matched
                     (existing\<lparr> domains := Some (sorted_set (eds @ new_domains)) \<rparr>)
                     (vendors_by_id s) \<rparr>
     else Some s
   }"

text \<open>
  Lines 152 to 156: the union replaces the matched record's domains and every domain
  of \<open>v\<close> is registered under the matched id.
\<close>

definition absorb :: "mstate \<Rightarrow> string \<Rightarrow> vendor \<Rightarrow> mstate option" where
  "absorb s matched v = do {
     existing \<leftarrow> map_of (vendors_by_id s) matched;
     eds \<leftarrow> domains existing;
     vds \<leftarrow> domains v;
     Some \<lparr> domain_to_id = register vds matched (domain_to_id s),
            vendors_by_id =
              AList.update matched
                (existing\<lparr> domains := Some (sorted_set (eds @ vds)) \<rparr>)
                (vendors_by_id s) \<rparr>
   }"

text \<open>
  Lines 160 to 167 and 196 to 202: a new record; an id that is already a key gets the
  suffix of the source, and the record is stored under the resulting id.
\<close>

definition insert_new :: "string \<Rightarrow> mstate \<Rightarrow> vendor \<Rightarrow> mstate option" where
  "insert_new suffix s v = do {
     vid0 \<leftarrow> vendor_id v;
     let taken = (map_of (vendors_by_id s) vid0 \<noteq> None);
     let vid = (if taken then vid0 @ suffix else vid0);
     let v' = (if taken then v\<lparr> vendor_id := Some vid \<rparr> else v);
     ds \<leftarrow> domains v';
     Some \<lparr> domain_to_id = register ds vid (domain_to_id s),
            vendors_by_id = AList.update vid v' (vendors_by_id s) \<rparr>
   }"

text \<open>Pass 2, the body of the loop of lines 120 to 168.\<close>

definition ddg_step :: "mstate \<Rightarrow> vendor \<Rightarrow> mstate option" where
  "ddg_step s v0 = do {
     let v = normalize_vendor v0;
     ds \<leftarrow> domains v;
     matched_premium_id \<leftarrow> find_premium s ds;
     if truthy matched_premium_id
     then enrich s (the matched_premium_id) v
     else do {
       let matched_id = first_owner (domain_to_id s) ds;
       if truthy matched_id
       then absorb s (the matched_id) v
       else insert_new ''-ddg'' s v
     }
   }"

text \<open>Pass 3, the body of the loop of lines 175 to 203.\<close>

definition dc_step :: "mstate \<Rightarrow> vendor \<Rightarrow> mstate option" where
  "dc_step s v0 = do {
     let v = normalize_vendor v0;
     ds \<leftarrow> domains v;
     let matched_id = first_owner (domain_to_id s) ds;
     if truthy matched_id
     then enrich s (the matched_id) v
     else insert_new ''-dc'' s v
   }"

text \<open>Lines 208 to 219: the clean-up of one record.\<close>

definition cleanup_fields :: "string list" where
  "cleanup_fields =
    [''source'', ''prevalence'', ''fingerprinting'', ''cookies'',
     ''sites'', ''disconnect_category'', ''website'']"

definition cleanup_vendor :: "vendor \<Rightarrow> vendor" where
  "cleanup_vendor v =
    (let metadata =
           List.map_filter (\<lambda>field. map_option (Pair field) (map_of (extras v) field))
             cleanup_fields;
         popped = filter (\<lambda>kv. fst kv \<notin> set cleanup_fields) (extras v)
     in if metadata \<noteq> []
        then v\<lparr> extras := popped, import_metadata := Some metadata \<rparr>
        else v\<lparr> extras := popped \<rparr>)"

text \<open>Line 222: \<open>result.sort(key=lambda v: v['id'])\<close>, a stable sort.\<close>

definition sort_by_id :: "vendor list \<Rightarrow> vendor list option" where
  "sort_by_id result =
    (if list_all (\<lambda>v. vendor_id v \<noteq> None) result
     then Some (sort_key (\<lambda>v. the (vendor_id v)) result)
     else None)"

definition merge_state :: "vendor list \<Rightarrow> vendor list \<Rightarrow> vendor list \<Rightarrow> mstate option" where
  "merge_state premium duckduckgo disconnect = do {
     s1 \<leftarrow> foldM premium_step (map mark_premium premium) init_state;
     s2 \<leftarrow> foldM ddg_step (map mark_standard duckduckgo) s1;
     foldM dc_step (map mark_standard disconnect) s2
   }"

definition merge_vendors :: "vendor list \<Rightarrow> vendor list \<Rightarrow> vendor list \<Rightarrow> vendor list option" where
  "merge_vendors premium duckduckgo disconnect = do {
     s \<leftarrow> merge_state premium duckduckgo disconnect;
     sort_by_id (map (\<lambda>kv. cleanup_vendor (snd kv)) (vendors_by_id s))
   }"

subsection \<open>Sample records\<close>

text \<open>The dict \<open>{}\<close>, and the dict \<open>{'id': i, 'domains': ds}\<close>.\<close>

definition empty_vendor :: vendor where
  "empty_vendor = \<lparr> vendor_id = None, domains = None, name = None, company = None,
     category = None, gdpr_compliant = None, risk_score = None, tier = None,
     extras = [], import_metadata = None \<rparr>"

definition vendor_of :: "string \<Rightarrow> string list \<Rightarrow> vendor" where
  "vendor_of i ds = empty_vendor\<lparr> vendor_id := Some i, domains := Some ds \<rparr>"

definition sample_vendor :: vendor where
  "sample_vendor = empty_vendor\<lparr> domains := Some [''B.Com'', '''', ''a.com''],
      category := Some ''tracking'', risk_score := Some 47 \<rparr>"

definition sample_index :: "string \<rightharpoonup> string" where
  "sample_index = [''a.com'' \<mapsto> ''x'', ''b.com'' \<mapsto> ''y'']"

text \<open>The indices with two stored records that own the domains of the sample index.\<close>

definition owner_state :: mstate where
  "owner_state = \<lparr> domain_to_id = sample_index,
       vendors_by_id = [(''x'', normalize_vendor (vendor_of ''x'' [''a.com''])),
                        (''y'', normalize_vendor (vendor_of ''y'' [''b.com'']))] \<rparr>"

text \<open>A record as the merge stores it, and one as an importer writes it.\<close>

definition stored_vendor :: vendor where
  "stored_vendor = \<lparr> vendor_id = Some ''x'', domains = Some [''a.com''], name = Some ''x'',
     company = Some ''Unknown'', category = Some ''other'', gdpr_compliant = Some False,
     risk_score = Some 5, tier = Some ''standard'', extras = [], import_metadata = None \<rparr>"

definition tracked_vendor :: vendor where
  "tracked_vendor = (vendor_of ''x'' [''a.com''])
     \<lparr> extras := [(''prevalence'', JNum 3), (''privacy_policy'', JStr ''https://x.example/privacy'')] \<rparr>"

text \<open>A secondary record that declares itself premium, and the indices once it is stored.\<close>

definition premium_holder :: vendor where
  "premium_holder = (vendor_of ''x'' [''p.com''])\<lparr> tier := Some ''premium'' \<rparr>"

definition holder_state :: mstate where
  "holder_state = \<lparr> domain_to_id = [''p.com'' \<mapsto> ''x''],
       vendors_by_id = [(''x'', normalize_vendor premium_holder)] \<rparr>"

text \<open>The id, domains and tier of each record of a result.\<close>

definition summary ::
  "vendor list option \<Rightarrow> (string option \<times> string list option \<times> string option) list option" where
  "summary out = map_option (map (\<lambda>v. (vendor_id v, domains v, tier v))) out"

section \<open>Properties of records and of the indices\<close>

text \<open>The domains of a record, none when the key is missing; the id after normalization.\<close>

definition dom_list :: "vendor \<Rightarrow> string list" where
  "dom_list r = setdefault (domains r) []"

definition normal_id :: "vendor \<Rightarrow> string" where
  "normal_id v = setdefault (vendor_id v) ''unknown''"

text \<open>A record in the form that \<open>normalize_vendor\<close> produces.\<close>

definition normal :: "vendor \<Rightarrow> bool" where
  "normal r \<longleftrightarrow>
     vendor_id r \<noteq> None \<and> name r \<noteq> None \<and> company r \<noteq> None \<and> gdpr_compliant r \<noteq> None
     \<and> (\<exists>c \<in> set VALID_CATEGORIES. category r = Some c)
     \<and> (\<exists>x. risk_score r = Some x \<and> 1 \<le> x \<and> x \<le> 10)
     \<and> (\<exists>ds. domains r = Some ds \<and> (\<forall>d \<in> set ds. lowercase d \<and> d \<noteq> []))"

text \<open>No key of \<open>cleanup_fields\<close> at the top level of the record.\<close>

definition clean_extras :: "vendor \<Rightarrow> bool" where
  "clean_extras r \<longleftrightarrow> (\<forall>kv \<in> set (extras r). fst kv \<notin> set cleanup_fields)"

text \<open>
  The indices are well formed: the keys of \<open>vendors_by_id\<close> are distinct, each record is
  stored under its own id and is normal, and every id that \<open>domain_to_id\<close> gives is a key.
\<close>

definition wf_state :: "mstate \<Rightarrow> bool" where
  "wf_state s \<longleftrightarrow>
     distinct (map fst (vendors_by_id s))
     \<and> (\<forall>k r. map_of (vendors_by_id s) k = Some r \<longrightarrow> vendor_id r = Some k \<and> normal r)
     \<and> (\<forall>d i. domain_to_id s d = Some i \<longrightarrow> map_of (vendors_by_id s) i \<noteq> None)"

text \<open>Every stored record has a non-empty domains list without repetitions.\<close>

definition full_domains :: "mstate \<Rightarrow> bool" where
  "full_domains s \<longleftrightarrow>
     (\<forall>k r. map_of (vendors_by_id s) k = Some r \<longrightarrow> dom_list r \<noteq> [] \<and> distinct (dom_list r))"

text \<open>
  The record \<open>n\<close> is kept: a record is stored under its id with the same descriptive
  fields and tier, and with at least the domains of \<open>n\<close>.
\<close>

definition same_fields :: "vendor \<Rightarrow> vendor \<Rightarrow> bool" where
  "same_fields a b \<longleftrightarrow>
     vendor_id a = vendor_id b \<and> name a = name b \<and> company a = company b
     \<and> category a = category b \<and> risk_score a = risk_score b
     \<and> gdpr_compliant a = gdpr_compliant b \<and> tier a = tier b"

definition keeps :: "vendor \<Rightarrow> mstate \<Rightarrow> bool" where
  "keeps n s \<longleftrightarrow>
     (\<exists>k e. vendor_id n = Some k \<and> map_of (vendors_by_id s) k = Some e
        \<and> same_fields n e \<and> set (dom_list n) \<subseteq> set (dom_list e))"

text \<open>Every domain that a stored record lists is registered to that record.\<close>

definition owns :: "mstate \<Rightarrow> bool" where
  "owns s \<longleftrightarrow>
     (\<forall>k r. map_of (vendors_by_id s) k = Some r \<longrightarrow>
        (\<forall>d \<in> set (dom_list r). domain_to_id s d = Some k))"

subsection \<open>Runs without straddling records\<close>

text \<open>
  The record that will hold the domains of \<open>v\<close>: its own id in the premium pass; in the
  other passes the record the pass selects for a merge, and none when \<open>v\<close> is inserted as
  a new record.
\<close>

definition premium_target :: "mstate \<Rightarrow> vendor \<Rightarrow> string option" where
  "premium_target s v = vendor_id (normalize_vendor v)"

definition ddg_target :: "mstate \<Rightarrow> vendor \<Rightarrow> string option" where
  "ddg_target s v =
     (let ds = dom_list (normalize_vendor v)
      in case find_premium s ds of
           None \<Rightarrow> None
         | Some matched_premium_id \<Rightarrow>
             if truthy matched_premium_id then matched_premium_id
             else if truthy (first_owner (domain_to_id s) ds)
                  then first_owner (domain_to_id s) ds
                  else None)"

definition dc_target :: "mstate \<Rightarrow> vendor \<Rightarrow> string option" where
  "dc_target s v =
     (let ds = dom_list (normalize_vendor v)
      in if truthy (first_owner (domain_to_id s) ds) then first_owner (domain_to_id s) ds
         else None)"

text \<open>No domain of \<open>v\<close> is registered to a record other than the target.\<close>

definition no_straddle :: "mstate \<Rightarrow> string option \<Rightarrow> vendor \<Rightarrow> bool" where
  "no_straddle s target v \<longleftrightarrow>
     (\<forall>d \<in> set (dom_list (normalize_vendor v)).
        domain_to_id s d = None \<or> domain_to_id s d = target)"

fun clean_run ::
  "(mstate \<Rightarrow> vendor \<Rightarrow> mstate option) \<Rightarrow> (mstate \<Rightarrow> vendor \<Rightarrow> string option)
     \<Rightarrow> vendor list \<Rightarrow> mstate \<Rightarrow> bool" where
  "clean_run step target [] s = True"
| "clean_run step target (v # vs) s =
     (no_straddle s (target s v) v
      \<and> (case step s v of None \<Rightarrow> False | Some s' \<Rightarrow> clean_run step target vs s'))"

definition clean_merge :: "vendor list \<Rightarrow> vendor list \<Rightarrow> vendor list \<Rightarrow> bool" where
  "clean_merge premium duckduckgo disconnect =
     (clean_run premium_step premium_target (map mark_premium premium) init_state
      \<and> (case foldM premium_step (map mark_premium premium) init_state of
           None \<Rightarrow> False
         | Some s1 \<Rightarrow>
             clean_run ddg_step ddg_target (map mark_standard duckduckgo) s1
             \<and> (case foldM ddg_step (map mark_standard duckduckgo) s1 of
                  None \<Rightarrow> False
                | Some s2 \<Rightarrow> clean_run dc_step dc_target (map mark_standard disconnect) s2)))"

text \<open>The normalized domains of the records of a list are pairwise disjoint.\<close>

fun disjoint_domains :: "vendor list \<Rightarrow> bool" where
  "disjoint_domains [] = True"
| "disjoint_domains (v # vs) =
     ((\<forall>w \<in> set vs.
         set (dom_list (normalize_vendor v)) \<inter> set (dom_list (normalize_vendor w)) = {})
      \<and> disjoint_domains vs)"

subsection \<open>The normalizer on dicts\<close>

text \<open>\<open>d.get(k, dflt)\<close>, and the dict after the seven \<open>setdefault\<close> calls of lines 68 to 74.\<close>

definition get_or :: "pydict \<Rightarrow> string \<Rightarrow> jvalue \<Rightarrow> jvalue" where
  "get_or d k dflt = (case map_of d k of None \<Rightarrow> dflt | Some x \<Rightarrow> x)"

definition with_defaults :: "pydict \<Rightarrow> pydict" where
  "with_defaults d =
     dict_setdefault (dict_setdefault (dict_setdefault (dict_setdefault (dict_setdefault
       (dict_setdefault (dict_setdefault d ''id'' (JStr ''unknown'')) ''domains'' (JList []))
       ''name'' (get_or d ''id'' (JStr ''unknown''))) ''company'' (JStr ''Unknown''))
       ''category'' (JStr ''other'')) ''gdpr_compliant'' (JBool False)) ''risk_score'' (JNum 5)"

text \<open>
  The values on which no statement raises: a score that is a number, a category that can
  be hashed, domains that can be iterated and whose truthy entries are strings.
\<close>

fun score_ok :: "jvalue \<Rightarrow> bool" where
  "score_ok (JNum n) = True"
| "score_ok (JBool b) = True"
| "score_ok x = False"

fun hashable :: "jvalue \<Rightarrow> bool" where
  "hashable (JList xs) = False"
| "hashable (JObj kvs) = False"
| "hashable x = True"

fun is_str :: "jvalue \<Rightarrow> bool" where
  "is_str (JStr s) = True"
| "is_str x = False"

fun domains_ok :: "jvalue \<Rightarrow> bool" where
  "domains_ok (JList xs) = list_all (\<lambda>x. \<not> truth x \<or> is_str x) xs"
| "domains_ok (JStr s) = True"
| "domains_ok (JObj kvs) = True"
| "domains_ok x = False"

definition well_typed :: "pydict \<Rightarrow> bool" where
  "well_typed d \<longleftrightarrow>
     score_ok (get_or d ''risk_score'' (JNum 5))
     \<and> hashable (get_or d ''category'' (JStr ''other''))
     \<and> domains_ok (get_or d ''domains'' (JList []))"

definition normalized_keys :: "string list" where
  "normalized_keys =
     [''id'', ''domains'', ''name'', ''company'', ''category'', ''gdpr_compliant'', ''risk_score'']"

text \<open>The dict that is returned, given the clamped score, the category test and the domains.\<close>

definition stored :: "pydict \<Rightarrow> jvalue \<Rightarrow> bool \<Rightarrow> jvalue list \<Rightarrow> pydict" where
  "stored d r valid lowered =
     AList.update ''domains'' (JList lowered)
       (if \<not> valid
        then AList.update ''category'' (JStr ''other'')
               (AList.update ''risk_score'' r (with_defaults d))
        else AList.update ''risk_score'' r (with_defaults d))"

text \<open>
  The dict of a typed record: a key for each field that is present, then the other keys.
\<close>

definition dict_field :: "string \<Rightarrow> jvalue option \<Rightarrow> pydict" where
  "dict_field k x = (case x of None \<Rightarrow> [] | Some y \<Rightarrow> [(k, y)])"

definition untyped_keys :: "vendor \<Rightarrow> pydict" where
  "untyped_keys v =
     dict_field ''tier'' (map_option JStr (tier v)) @ extras v
     @ dict_field ''_import_metadata'' (map_option JObj (import_metadata v))"

definition dict_of :: "vendor \<Rightarrow> pydict" where
  "dict_of v =
     dict_field ''id'' (map_option JStr (vendor_id v))
     @ dict_field ''domains'' (map_option (\<lambda>ds. JList (map JStr ds)) (domains v))
     @ dict_field ''name'' (map_option JStr (name v))
     @ dict_field ''company'' (map_option JStr (company v))
     @ dict_field ''category'' (map_option JStr (category v))
     @ dict_field ''gdpr_compliant'' (map_option JBool (gdpr_compliant v))
     @ dict_field ''risk_score'' (map_option JNum (risk_score v))
     @ dict_field ''tier'' (map_option JStr (tier v))
     @ extras v
     @ dict_field ''_import_metadata'' (map_option JObj (import_metadata v))"

definition sample_dict :: pydict where
  "sample_dict =
     [(''domains'', JList [JStr ''B.Com'', JStr '''', JNull, JStr ''a.com'']),
      (''category'', JStr ''tracking''),
      (''risk_score'', JNum 47),
      (''privacy_policy'', JStr ''https://x.example/privacy'')]"

section \<open>The normalizer\<close>

lemma lower_char_not_upper: "\<not> is_upper (lower_char c)"
  unfolding lower_char_def is_upper_def Let_def
  by (auto simp: of_char_of)

lemma lower_char_fix: "\<not> is_upper c \<Longrightarrow> lower_char c = c"
  by (simp add: lower_char_def)

lemma lowercase_lower: "lowercase (lower d)"
  by (simp add: lowercase_def lower_def lower_char_not_upper)

lemma lower_fix: "lowercase d \<Longrightarrow> lower d = d"
  by (simp add: lowercase_def lower_def lower_char_fix map_idI)

lemma lower_Nil_iff: "lower d = [] \<longleftrightarrow> d = []"
  by (simp add: lower_def)

text \<open>
  The typed normalizer. On a record whose present fields have the types of the data model
  no statement of \<open>normalize_vendor\<close> raises, and its result has:
  the id, or \<open>unknown\<close> when the key is missing; the name, or the (defaulted) id; the
  company, or \<open>Unknown\<close>; the GDPR flag, or false; the risk score, or 5, brought into 1..10
  by min and max (so -3 gives 1 and 47 gives 10); the category when it is one of
  \<open>VALID_CATEGORIES\<close>, else \<open>other\<close>; every non-empty domain string of the input, in
  lower case and in the input's order, the empty ones dropped. Tier and all other keys
  are left as they are.
\<close>

theorem normalize_vendor_spec:
  "vendor_id (normalize_vendor v) = Some (case vendor_id v of None \<Rightarrow> ''unknown'' | Some i \<Rightarrow> i)
   \<and> name (normalize_vendor v) =
       (case name v of None \<Rightarrow> vendor_id (normalize_vendor v) | Some n \<Rightarrow> Some n)
   \<and> company (normalize_vendor v) = Some (case company v of None \<Rightarrow> ''Unknown'' | Some c \<Rightarrow> c)
   \<and> gdpr_compliant (normalize_vendor v) =
       Some (case gdpr_compliant v of None \<Rightarrow> False | Some g \<Rightarrow> g)
   \<and> risk_score (normalize_vendor v) =
       Some (case risk_score v of None \<Rightarrow> 5
             | Some r \<Rightarrow> if r < 1 then 1 else if 10 < r then 10 else r)
   \<and> category (normalize_vendor v) =
       Some (case category v of None \<Rightarrow> ''other''
             | Some c \<Rightarrow> if c \<in> set VALID_CATEGORIES then c else ''other'')
   \<and> domains (normalize_vendor v) =
       Some (case domains v of None \<Rightarrow> []
             | Some ds \<Rightarrow> map lower (filter (\<lambda>d. d \<noteq> []) ds))
   \<and> (\<exists>ds. domains (normalize_vendor v) = Some ds \<and> (\<forall>d \<in> set ds. lowercase d \<and> d \<noteq> []))
   \<and> tier (normalize_vendor v) = tier v
   \<and> extras (normalize_vendor v) = extras v
   \<and> import_metadata (normalize_vendor v) = import_metadata v
   \<and> risk_score (normalize_vendor (v\<lparr>risk_score := Some (- 3)\<rparr>)) = Some 1
   \<and> risk_score (normalize_vendor (v\<lparr>risk_score := Some 47\<rparr>)) = Some 10"
  by (simp add: normalize_vendor_def setdefault_def Let_def lowercase_lower lower_Nil_iff
           split: option.splits)

theorem normalize_vendor_spec_witness:
  "vendor_id (normalize_vendor sample_vendor) = Some ''unknown''
   \<and> name (normalize_vendor sample_vendor) = Some ''unknown''
   \<and> company (normalize_vendor sample_vendor) = Some ''Unknown''
   \<and> gdpr_compliant (normalize_vendor sample_vendor) = Some False
   \<and> risk_score (normalize_vendor sample_vendor) = Some 10
   \<and> category (normalize_vendor sample_vendor) = Some ''other''
   \<and> domains (normalize_vendor sample_vendor) = Some [''b.com'', ''a.com'']
   \<and> lowercase ''b.com'' \<and> lowercase ''a.com''"
proof -
  have l: "lower ''B.Com'' = ''b.com''" "lower ''a.com'' = ''a.com''"
    by code_simp+
  have c: "''tracking'' \<notin> set VALID_CATEGORIES"
    by (simp add: VALID_CATEGORIES_def)
  note spec = normalize_vendor_spec [of sample_vendor]
  from spec l c have fields:
    "vendor_id (normalize_vendor sample_vendor) = Some ''unknown''"
    "name (normalize_vendor sample_vendor) = Some ''unknown''"
    "company (normalize_vendor sample_vendor) = Some ''Unknown''"
    "gdpr_compliant (normalize_vendor sample_vendor) = Some False"
    "risk_score (normalize_vendor sample_vendor) = Some 10"
    "category (normalize_vendor sample_vendor) = Some ''other''"
    "domains (normalize_vendor sample_vendor) = Some [''b.com'', ''a.com'']"
    by (simp_all add: sample_vendor_def empty_vendor_def)
  from spec obtain ds where
    "domains (normalize_vendor sample_vendor) = Some ds" "\<forall>d \<in> set ds. lowercase d \<and> d \<noteq> []"
    by blast
  with fields(7) have "lowercase ''b.com'' \<and> lowercase ''a.com''"
    by simp
  with fields show ?thesis
    by simp
qed

subsection \<open>The normalizer on a dict of JSON values\<close>

lemma map_of_setdefault:
  "map_of (dict_setdefault d k x) k' = (if k' = k then Some (get_or d k x) else map_of d k')"
  by (cases "map_of d k") (auto simp: dict_setdefault_def get_or_def map_add_def split: option.splits)

lemma get_or_setdefault:
  "get_or (dict_setdefault d k x) k' y = (if k' = k then get_or d k x else get_or d k' y)"
  by (simp add: get_or_def map_of_setdefault)

lemma dict_get_setdefault:
  "dict_get (dict_setdefault d k x) k' = (if k' = k then Inr (get_or d k x) else dict_get d k')"
  by (simp add: dict_get_def map_of_setdefault)

lemma dict_get_update:
  "dict_get (AList.update k x d) k' = (if k' = k then Inr x else dict_get d k')"
  by (simp add: dict_get_def update_conv')

lemma dict_get_if:
  "dict_get (if c then a else b) k = (if c then dict_get a k else dict_get b k)"
  by simp

lemma normalize_vendor_dict_steps:
  "normalize_vendor_dict d =
     (case clamp_score (get_or d ''risk_score'' (JNum 5)) of
        Inl e \<Rightarrow> Inl e
      | Inr r \<Rightarrow>
     case in_valid_categories (get_or d ''category'' (JStr ''other'')) of
        Inl e \<Rightarrow> Inl e
      | Inr valid \<Rightarrow>
     case iterate (get_or d ''domains'' (JList [])) of
        Inl e \<Rightarrow> Inl e
      | Inr entries \<Rightarrow>
     case lower_entries entries of
        Inl e \<Rightarrow> Inl e
      | Inr lowered \<Rightarrow>
          Inr (AList.update ''domains'' (JList lowered)
                (if \<not> valid
                 then AList.update ''category'' (JStr ''other'')
                        (AList.update ''risk_score'' r (with_defaults d))
                 else AList.update ''risk_score'' r (with_defaults d))))"
  by (simp add: normalize_vendor_dict_def with_defaults_def Let_def dict_get_setdefault
        dict_get_update get_or_setdefault dict_get_if split: sum.split)

lemma normalize_vendor_dict_Inr_iff:
  "normalize_vendor_dict d = Inr d' \<longleftrightarrow>
     (\<exists>r valid entries lowered.
        clamp_score (get_or d ''risk_score'' (JNum 5)) = Inr r
      \<and> in_valid_categories (get_or d ''category'' (JStr ''other'')) = Inr valid
      \<and> iterate (get_or d ''domains'' (JList [])) = Inr entries
      \<and> lower_entries entries = Inr lowered
      \<and> d' = stored d r valid lowered)"
  unfolding stored_def
  by (subst normalize_vendor_dict_steps) (auto split: sum.splits)

lemma clamp_score_Inr_iff:
  "clamp_score x = Inr r \<longleftrightarrow>
     score_ok x
     \<and> r = JNum (case x of JNum n \<Rightarrow> if n < 1 then 1 else if 10 < n then 10 else n | _ \<Rightarrow> 1)"
  by (cases x) auto

lemma in_valid_categories_Inr_iff:
  "in_valid_categories x = Inr b \<longleftrightarrow>
     hashable x \<and> b = (case x of JStr c \<Rightarrow> c \<in> set VALID_CATEGORIES | _ \<Rightarrow> False)"
  by (cases x) auto

lemma lower_entries_ok:
  "list_all (\<lambda>x. \<not> truth x \<or> is_str x) es \<Longrightarrow>
   \<exists>ys. lower_entries es = Inr (map JStr ys) \<and> (\<forall>y \<in> set ys. lowercase y \<and> y \<noteq> [])"
proof (induction es)
  case Nil
  have "lower_entries [] = Inr (map JStr []) \<and> (\<forall>y \<in> set []. lowercase y \<and> y \<noteq> [])" by simp
  then show ?case by blast
next
  case (Cons e es)
  then obtain ys where ys: "lower_entries es = Inr (map JStr ys)" "\<forall>y \<in> set ys. lowercase y \<and> y \<noteq> []"
    by auto
  show ?case
  proof (cases "truth e")
    case False
    with ys show ?thesis by auto
  next
    case True
    with Cons.prems obtain s where s: "e = JStr s" by (cases e) auto
    with True have "s \<noteq> []" by simp
    with s ys have "lower_entries (e # es) = Inr (map JStr (lower s # ys))
        \<and> (\<forall>y \<in> set (lower s # ys). lowercase y \<and> y \<noteq> [])"
      by (simp add: lowercase_lower lower_Nil_iff)
    then show ?thesis by blast
  qed
qed

lemma lower_entries_fail:
  "\<not> list_all (\<lambda>x. \<not> truth x \<or> is_str x) es \<Longrightarrow> lower_entries es = Inl AttributeError"
proof (induction es)
  case Nil
  then show ?case by simp
next
  case (Cons e es)
  show ?case
  proof (cases "\<not> truth e \<or> is_str e")
    case True
    with Cons.prems have "\<not> list_all (\<lambda>x. \<not> truth x \<or> is_str x) es" by auto
    then have ih: "lower_entries es = Inl AttributeError" by (rule Cons.IH)
    with True show ?thesis by (cases e) auto
  next
    case False
    then show ?thesis by (cases e) auto
  qed
qed

lemma lower_entries_strs:
  "lower_entries (map JStr xs) = Inr (map JStr (map lower (filter (\<lambda>x. x \<noteq> []) xs)))"
  by (induction xs) auto

lemma inj_JStr: "map (JStr \<circ> f) xs = map JStr ys \<longleftrightarrow> map f xs = ys"
  by (induction xs arbitrary: ys) auto

lemma domains_Inr_iff:
  "(\<exists>entries lowered. iterate x = Inr entries \<and> lower_entries entries = Inr lowered)
     \<longleftrightarrow> domains_ok x"
proof (cases x)
  case (JList es)
  show ?thesis
  proof (cases "list_all (\<lambda>x. \<not> truth x \<or> is_str x) es")
    case True
    from lower_entries_ok [OF True] JList True show ?thesis by auto
  next
    case False
    from lower_entries_fail [OF False] JList False show ?thesis by auto
  qed
next
  case (JStr s)
  have "list_all (\<lambda>x. \<not> truth x \<or> is_str x) (map (\<lambda>c. JStr [c]) s)"
    by (simp add: list_all_iff)
  from lower_entries_ok [OF this] JStr show ?thesis by auto
next
  case (JObj kvs)
  have "list_all (\<lambda>x. \<not> truth x \<or> is_str x) (map (\<lambda>kv. JStr (fst kv)) kvs)"
    by (simp add: list_all_iff)
  from lower_entries_ok [OF this] JObj show ?thesis by auto
qed simp_all

lemma domains_lowered:
  assumes "iterate x = Inr entries" "lower_entries entries = Inr lowered"
  shows "\<exists>ys. lowered = map JStr ys \<and> (\<forall>y \<in> set ys. lowercase y \<and> y \<noteq> [])
     \<and> (\<forall>xs. x = JList (map JStr xs) \<longrightarrow> ys = map lower (filter (\<lambda>x. x \<noteq> []) xs))"
proof -
  have ok: "list_all (\<lambda>x. \<not> truth x \<or> is_str x) entries"
    using assms(2) lower_entries_fail [of entries] by auto
  from lower_entries_ok [OF ok] assms(2) obtain ys where
    ys: "lowered = map JStr ys" "\<forall>y \<in> set ys. lowercase y \<and> y \<noteq> []"
    by auto
  have "ys = map lower (filter (\<lambda>x. x \<noteq> []) xs)" if "x = JList (map JStr xs)" for xs
  proof -
    from that assms(1) have "entries = map JStr xs" by simp
    with assms(2) ys(1) lower_entries_strs [of xs] show ?thesis by (simp add: inj_JStr)
  qed
  with ys show ?thesis by blast
qed

lemma map_of_stored:
  "map_of (stored d r valid lowered) ''id'' = Some (get_or d ''id'' (JStr ''unknown''))"
  "map_of (stored d r valid lowered) ''name'' = Some (get_or d ''name'' (get_or d ''id'' (JStr ''unknown'')))"
  "map_of (stored d r valid lowered) ''company'' = Some (get_or d ''company'' (JStr ''Unknown''))"
  "map_of (stored d r valid lowered) ''gdpr_compliant'' = Some (get_or d ''gdpr_compliant'' (JBool False))"
  "map_of (stored d r valid lowered) ''risk_score'' = Some r"
  "map_of (stored d r valid lowered) ''category''
     = Some (if valid then get_or d ''category'' (JStr ''other'') else JStr ''other'')"
  "map_of (stored d r valid lowered) ''domains'' = Some (JList lowered)"
  by (simp_all add: stored_def with_defaults_def update_conv' map_of_setdefault get_or_setdefault)

lemma map_of_stored_other:
  "k \<notin> set normalized_keys \<Longrightarrow> map_of (stored d r valid lowered) k = map_of d k"
  by (simp add: stored_def with_defaults_def update_conv' map_of_setdefault normalized_keys_def)

lemma map_of_dict_field: "map_of (dict_field k' x) k = (if k = k' then x else None)"
  by (simp add: dict_field_def split: option.splits)

lemma extras_None:
  "\<forall>kv \<in> set (extras v). fst kv \<notin> set normalized_keys \<Longrightarrow> k \<in> set normalized_keys
   \<Longrightarrow> map_of (extras v) k = None"
  by (auto simp: map_of_eq_None_iff)

lemma map_of_dict_of_typed:
  assumes "\<forall>kv \<in> set (extras v). fst kv \<notin> set normalized_keys"
  shows "map_of (dict_of v) ''id'' = map_option JStr (vendor_id v)"
    "map_of (dict_of v) ''domains'' = map_option (\<lambda>ds. JList (map JStr ds)) (domains v)"
    "map_of (dict_of v) ''name'' = map_option JStr (name v)"
    "map_of (dict_of v) ''company'' = map_option JStr (company v)"
    "map_of (dict_of v) ''category'' = map_option JStr (category v)"
    "map_of (dict_of v) ''gdpr_compliant'' = map_option JBool (gdpr_compliant v)"
    "map_of (dict_of v) ''risk_score'' = map_option JNum (risk_score v)"
proof -
  have e: "map_of (extras v) ''id'' = None" "map_of (extras v) ''domains'' = None"
    "map_of (extras v) ''name'' = None" "map_of (extras v) ''company'' = None"
    "map_of (extras v) ''category'' = None" "map_of (extras v) ''gdpr_compliant'' = None"
    "map_of (extras v) ''risk_score'' = None"
    by (rule extras_None [OF assms], simp add: normalized_keys_def)+
  show "map_of (dict_of v) ''id'' = map_option JStr (vendor_id v)"
    using e(1) by (simp add: dict_of_def map_add_def map_of_dict_field split: option.split)
  show "map_of (dict_of v) ''domains'' = map_option (\<lambda>ds. JList (map JStr ds)) (domains v)"
    using e(2) by (simp add: dict_of_def map_add_def map_of_dict_field split: option.split)
  show "map_of (dict_of v) ''name'' = map_option JStr (name v)"
    using e(3) by (simp add: dict_of_def map_add_def map_of_dict_field split: option.split)
  show "map_of (dict_of v) ''company'' = map_option JStr (company v)"
    using e(4) by (simp add: dict_of_def map_add_def map_of_dict_field split: option.split)
  show "map_of (dict_of v) ''category'' = map_option JStr (category v)"
    using e(5) by (simp add: dict_of_def map_add_def map_of_dict_field split: option.split)
  show "map_of (dict_of v) ''gdpr_compliant'' = map_option JBool (gdpr_compliant v)"
    using e(6) by (simp add: dict_of_def map_add_def map_of_dict_field split: option.split)
  show "map_of (dict_of v) ''risk_score'' = map_option JNum (risk_score v)"
    using e(7) by (simp add: dict_of_def map_add_def map_of_dict_field split: option.split)
qed

lemma map_of_dict_of_other:
  "k \<notin> set normalized_keys \<Longrightarrow> map_of (dict_of v) k = map_of (untyped_keys v) k"
  by (simp add: dict_of_def untyped_keys_def map_add_def map_of_dict_field normalized_keys_def)

lemma normalize_vendor_dict_returns_iff:
  "(\<exists>d'. normalize_vendor_dict d = Inr d') \<longleftrightarrow> well_typed d"
proof
  assume "\<exists>d'. normalize_vendor_dict d = Inr d'"
  then obtain r valid entries lowered where
    h: "clamp_score (get_or d ''risk_score'' (JNum 5)) = Inr r"
      "in_valid_categories (get_or d ''category'' (JStr ''other'')) = Inr valid"
      "iterate (get_or d ''domains'' (JList [])) = Inr entries"
      "lower_entries entries = Inr lowered"
    unfolding normalize_vendor_dict_Inr_iff by blast
  from h(1) have "score_ok (get_or d ''risk_score'' (JNum 5))"
    by (simp add: clamp_score_Inr_iff)
  moreover from h(2) have "hashable (get_or d ''category'' (JStr ''other''))"
    by (simp add: in_valid_categories_Inr_iff)
  moreover from h(3,4) have "domains_ok (get_or d ''domains'' (JList []))"
    using domains_Inr_iff [of "get_or d ''domains'' (JList [])"] by blast
  ultimately show "well_typed d" by (simp add: well_typed_def)
next
  assume w: "well_typed d"
  then obtain r where r: "clamp_score (get_or d ''risk_score'' (JNum 5)) = Inr r"
    by (simp add: well_typed_def clamp_score_Inr_iff)
  from w obtain valid where v: "in_valid_categories (get_or d ''category'' (JStr ''other'')) = Inr valid"
    by (simp add: well_typed_def in_valid_categories_Inr_iff)
  from w obtain entries lowered where
    e: "iterate (get_or d ''domains'' (JList [])) = Inr entries" "lower_entries entries = Inr lowered"
    using domains_Inr_iff [of "get_or d ''domains'' (JList [])"] by (auto simp: well_typed_def)
  from r v e have "normalize_vendor_dict d = Inr (stored d r valid lowered)"
    unfolding normalize_vendor_dict_Inr_iff by blast
  then show "\<exists>d'. normalize_vendor_dict d = Inr d'" by blast
qed

lemma normalize_vendor_dict_result:
  assumes "normalize_vendor_dict d = Inr d'"
  shows "map_of d' ''id'' = Some (get_or d ''id'' (JStr ''unknown''))"
    and "map_of d' ''name'' = Some (get_or d ''name'' (get_or d ''id'' (JStr ''unknown'')))"
    and "map_of d' ''company'' = Some (get_or d ''company'' (JStr ''Unknown''))"
    and "map_of d' ''gdpr_compliant'' = Some (get_or d ''gdpr_compliant'' (JBool False))"
    and "map_of d' ''risk_score'' =
         Some (JNum (case get_or d ''risk_score'' (JNum 5) of
                       JNum n \<Rightarrow> if n < 1 then 1 else if 10 < n then 10 else n
                     | _ \<Rightarrow> 1))"
    and "map_of d' ''category'' =
         Some (JStr (case get_or d ''category'' (JStr ''other'') of
                       JStr c \<Rightarrow> if c \<in> set VALID_CATEGORIES then c else ''other''
                     | _ \<Rightarrow> ''other''))"
    and "\<exists>ys. map_of d' ''domains'' = Some (JList (map JStr ys))
          \<and> (\<forall>y \<in> set ys. lowercase y \<and> y \<noteq> [])
          \<and> (\<forall>xs. get_or d ''domains'' (JList []) = JList (map JStr xs) \<longrightarrow>
                ys = map lower (filter (\<lambda>x. x \<noteq> []) xs))"
    and "\<forall>k. k \<notin> set normalized_keys \<longrightarrow> map_of d' k = map_of d k"
proof -
  from assms obtain r valid entries lowered where
    h: "clamp_score (get_or d ''risk_score'' (JNum 5)) = Inr r"
      "in_valid_categories (get_or d ''category'' (JStr ''other'')) = Inr valid"
      "iterate (get_or d ''domains'' (JList [])) = Inr entries"
      "lower_entries entries = Inr lowered"
    and d': "d' = stored d r valid lowered"
    unfolding normalize_vendor_dict_Inr_iff by blast
  from h(1) have r: "r = JNum (case get_or d ''risk_score'' (JNum 5) of
                       JNum n \<Rightarrow> if n < 1 then 1 else if 10 < n then 10 else n
                     | _ \<Rightarrow> 1)"
    by (simp add: clamp_score_Inr_iff)
  from h(2) have c: "(if valid then get_or d ''category'' (JStr ''other'') else JStr ''other'')
      = JStr (case get_or d ''category'' (JStr ''other'') of
                JStr c \<Rightarrow> if c \<in> set VALID_CATEGORIES then c else ''other''
              | _ \<Rightarrow> ''other'')"
    by (cases "get_or d ''category'' (JStr ''other'')") auto
  from domains_lowered [OF h(3,4)] obtain ys where
    ys: "lowered = map JStr ys" "\<forall>y \<in> set ys. lowercase y \<and> y \<noteq> []"
      "\<forall>xs. get_or d ''domains'' (JList []) = JList (map JStr xs) \<longrightarrow>
          ys = map lower (filter (\<lambda>x. x \<noteq> []) xs)"
    by blast
  show "map_of d' ''id'' = Some (get_or d ''id'' (JStr ''unknown''))"
    unfolding d' by (rule map_of_stored)
  show "map_of d' ''name'' = Some (get_or d ''name'' (get_or d ''id'' (JStr ''unknown'')))"
    unfolding d' by (rule map_of_stored)
  show "map_of d' ''company'' = Some (get_or d ''company'' (JStr ''Unknown''))"
    unfolding d' by (rule map_of_stored)
  show "map_of d' ''gdpr_compliant'' = Some (get_or d ''gdpr_compliant'' (JBool False))"
    unfolding d' by (rule map_of_stored)
  show "map_of d' ''risk_score'' =
         Some (JNum (case get_or d ''risk_score'' (JNum 5) of
                       JNum n \<Rightarrow> if n < 1 then 1 else if 10 < n then 10 else n
                     | _ \<Rightarrow> 1))"
    unfolding d' using r map_of_stored(5) [of d r valid lowered] by simp
  show "map_of d' ''category'' =
         Some (JStr (case get_or d ''category'' (JStr ''other'') of
                       JStr c \<Rightarrow> if c \<in> set VALID_CATEGORIES then c else ''other''
                     | _ \<Rightarrow> ''other''))"
    unfolding d' using c map_of_stored(6) [of d r valid lowered] by simp
  show "\<exists>ys. map_of d' ''domains'' = Some (JList (map JStr ys))
          \<and> (\<forall>y \<in> set ys. lowercase y \<and> y \<noteq> [])
          \<and> (\<forall>xs. get_or d ''domains'' (JList []) = JList (map JStr xs) \<longrightarrow>
                ys = map lower (filter (\<lambda>x. x \<noteq> []) xs))"
    unfolding d' using ys map_of_stored(7) [of d r valid lowered] by blast
  show "\<forall>k. k \<notin> set normalized_keys \<longrightarrow> map_of d' k = map_of d k"
    unfolding d' by (simp add: map_of_stored_other)
qed

lemma get_or_dict_of:
  assumes "\<forall>kv \<in> set (extras v). fst kv \<notin> set normalized_keys"
  shows "get_or (dict_of v) ''id'' (JStr ''unknown'') = JStr (setdefault (vendor_id v) ''unknown'')"
    "get_or (dict_of v) ''domains'' (JList []) = JList (map JStr (setdefault (domains v) []))"
    "get_or (dict_of v) ''name'' (JStr x) = JStr (setdefault (name v) x)"
    "get_or (dict_of v) ''company'' (JStr ''Unknown'') = JStr (setdefault (company v) ''Unknown'')"
    "get_or (dict_of v) ''category'' (JStr ''other'') = JStr (setdefault (category v) ''other'')"
    "get_or (dict_of v) ''gdpr_compliant'' (JBool False) = JBool (setdefault (gdpr_compliant v) False)"
    "get_or (dict_of v) ''risk_score'' (JNum 5) = JNum (setdefault (risk_score v) 5)"
  by (simp_all add: get_or_def map_of_dict_of_typed [OF assms] setdefault_def split: option.splits)

lemma untyped_keys_normalize: "untyped_keys (normalize_vendor v) = untyped_keys v"
  by (simp add: untyped_keys_def normalize_vendor_def Let_def)

lemma well_typed_dict_of:
  assumes "\<forall>kv \<in> set (extras v). fst kv \<notin> set normalized_keys"
  shows "well_typed (dict_of v)"
  unfolding well_typed_def get_or_dict_of [OF assms] by (simp add: list_all_iff)

lemma normalize_vendor_fields:
  "vendor_id (normalize_vendor v) = Some (setdefault (vendor_id v) ''unknown'')"
  "domains (normalize_vendor v)
     = Some (map lower (filter (\<lambda>x. x \<noteq> []) (setdefault (domains v) [])))"
  "name (normalize_vendor v) = Some (setdefault (name v) (setdefault (vendor_id v) ''unknown''))"
  "company (normalize_vendor v) = Some (setdefault (company v) ''Unknown'')"
  "category (normalize_vendor v)
     = Some (if setdefault (category v) ''other'' \<in> set VALID_CATEGORIES
             then setdefault (category v) ''other'' else ''other'')"
  "gdpr_compliant (normalize_vendor v) = Some (setdefault (gdpr_compliant v) False)"
  "risk_score (normalize_vendor v) = Some (max 1 (min 10 (setdefault (risk_score v) 5)))"
  "extras (normalize_vendor v) = extras v"
  by (simp_all add: normalize_vendor_def Let_def)

lemma refines_typed_keys:
  assumes e: "\<forall>kv \<in> set (extras v). fst kv \<notin> set normalized_keys"
    and d': "normalize_vendor_dict (dict_of v) = Inr d'"
  shows "map_of d' ''id'' = map_of (dict_of (normalize_vendor v)) ''id''"
    and "map_of d' ''domains'' = map_of (dict_of (normalize_vendor v)) ''domains''"
    and "map_of d' ''name'' = map_of (dict_of (normalize_vendor v)) ''name''"
    and "map_of d' ''company'' = map_of (dict_of (normalize_vendor v)) ''company''"
    and "map_of d' ''category'' = map_of (dict_of (normalize_vendor v)) ''category''"
    and "map_of d' ''gdpr_compliant'' = map_of (dict_of (normalize_vendor v)) ''gdpr_compliant''"
    and "map_of d' ''risk_score'' = map_of (dict_of (normalize_vendor v)) ''risk_score''"
proof -
  note res = normalize_vendor_dict_result [OF d']
  note g = get_or_dict_of [OF e]
  note f = normalize_vendor_fields [of v]
  have en: "\<forall>kv \<in> set (extras (normalize_vendor v)). fst kv \<notin> set normalized_keys"
    using e by (simp only: f(8))
  note t = map_of_dict_of_typed [OF en]
  show "map_of d' ''id'' = map_of (dict_of (normalize_vendor v)) ''id''"
    by (simp only: t(1) res(1) g(1) f(1) option.map)
  show "map_of d' ''name'' = map_of (dict_of (normalize_vendor v)) ''name''"
    by (simp only: t(3) res(2) g(1) g(3) f(3) option.map)
  show "map_of d' ''company'' = map_of (dict_of (normalize_vendor v)) ''company''"
    by (simp only: t(4) res(3) g(4) f(4) option.map)
  show "map_of d' ''gdpr_compliant'' = map_of (dict_of (normalize_vendor v)) ''gdpr_compliant''"
    by (simp only: t(6) res(4) g(6) f(6) option.map)
  show "map_of d' ''category'' = map_of (dict_of (normalize_vendor v)) ''category''"
    by (simp only: t(5) res(6) g(5) f(5) option.map jvalue.case if_distrib [of JStr])
  have "(if setdefault (risk_score v) 5 < 1 then 1
         else if 10 < setdefault (risk_score v) 5 then 10 else setdefault (risk_score v) 5)
        = max 1 (min 10 (setdefault (risk_score v) 5))"
    by (simp add: max_def min_def)
  then show "map_of d' ''risk_score'' = map_of (dict_of (normalize_vendor v)) ''risk_score''"
    by (simp only: t(7) res(5) g(7) f(7) option.map jvalue.case)
  from res(7) obtain ys where ys: "map_of d' ''domains'' = Some (JList (map JStr ys))"
    and yx: "\<forall>xs. get_or (dict_of v) ''domains'' (JList []) = JList (map JStr xs) \<longrightarrow>
        ys = map lower (filter (\<lambda>x. x \<noteq> []) xs)"
    by blast
  from yx [rule_format, OF g(2)] have "ys = map lower (filter (\<lambda>x. x \<noteq> []) (setdefault (domains v) []))" .
  with ys show "map_of d' ''domains'' = map_of (dict_of (normalize_vendor v)) ''domains''"
    by (simp only: t(2) f(2) option.map)
qed

lemma normalize_vendor_refines:
  assumes e: "\<forall>kv \<in> set (extras v). fst kv \<notin> set normalized_keys"
  shows "\<exists>d'. normalize_vendor_dict (dict_of v) = Inr d'
     \<and> (\<forall>k. map_of d' k = map_of (dict_of (normalize_vendor v)) k)"
proof -
  from well_typed_dict_of [OF e] obtain d' where d': "normalize_vendor_dict (dict_of v) = Inr d'"
    using normalize_vendor_dict_returns_iff [of "dict_of v"] by blast
  note ks = refines_typed_keys [OF e d']
  note other = normalize_vendor_dict_result(8) [OF d']
  have "map_of d' k = map_of (dict_of (normalize_vendor v)) k" for k
  proof (cases "k \<in> set normalized_keys")
    case True
    then have "k = ''id'' \<or> k = ''domains'' \<or> k = ''name'' \<or> k = ''company''
        \<or> k = ''category'' \<or> k = ''gdpr_compliant'' \<or> k = ''risk_score''"
      unfolding normalized_keys_def by simp
    with ks show ?thesis by blast
  next
    case False
    with other have "map_of d' k = map_of (dict_of v) k" by blast
    also have "\<dots> = map_of (untyped_keys v) k" using False by (rule map_of_dict_of_other)
    also have "\<dots> = map_of (untyped_keys (normalize_vendor v)) k"
      by (simp only: untyped_keys_normalize)
    also have "\<dots> = map_of (dict_of (normalize_vendor v)) k"
      using False by (rule map_of_dict_of_other [symmetric])
    finally show ?thesis .
  qed
  with d' show ?thesis by blast
qed

text \<open>
  C7, as amended. \<open>normalize_vendor\<close> returns exactly on the dicts whose risk score, if
  present, is a number, whose category, if present, can be hashed (is no list or dict), and
  whose domains, if present, can be iterated and have only strings among their truthy
  entries; on every other dict it raises (\<open>TypeError\<close> or \<open>AttributeError\<close>). When it
  returns, the result has: the id, or \<open>unknown\<close> when the key is missing; the name, or the
  (defaulted) id; the company, or \<open>Unknown\<close>; the GDPR flag, or false; the risk score, or
  5, brought into 1..10 by min and max (a boolean gives 1); the category when it is a
  string of \<open>VALID_CATEGORIES\<close>, else \<open>other\<close>; as domains a list of non-empty lower-case
  strings, which for a list of strings is the list of its non-empty entries in lower case
  and in the given order; every other key as it was. In particular it never fails on a
  record whose present fields have the types of the data model, and there it computes
  what the typed \<open>normalize_vendor\<close> above computes.
\<close>

theorem normalize_vendor_dict_spec:
  "((\<exists>r. normalize_vendor_dict d = Inr r) \<longleftrightarrow> well_typed d)
   \<and> (normalize_vendor_dict d = Inr d' \<longrightarrow>
        map_of d' ''id'' = Some (get_or d ''id'' (JStr ''unknown''))
      \<and> map_of d' ''name'' = Some (get_or d ''name'' (get_or d ''id'' (JStr ''unknown'')))
      \<and> map_of d' ''company'' = Some (get_or d ''company'' (JStr ''Unknown''))
      \<and> map_of d' ''gdpr_compliant'' = Some (get_or d ''gdpr_compliant'' (JBool False))
      \<and> map_of d' ''risk_score'' =
          Some (JNum (case get_or d ''risk_score'' (JNum 5) of
                        JNum n \<Rightarrow> if n < 1 then 1 else if 10 < n then 10 else n
                      | _ \<Rightarrow> 1))
      \<and> map_of d' ''category'' =
          Some (JStr (case get_or d ''category'' (JStr ''other'') of
                        JStr c \<Rightarrow> if c \<in> set VALID_CATEGORIES then c else ''other''
                      | _ \<Rightarrow> ''other''))
      \<and> (\<exists>ys. map_of d' ''domains'' = Some (JList (map JStr ys))
           \<and> (\<forall>y \<in> set ys. lowercase y \<and> y \<noteq> [])
           \<and> (\<forall>xs. get_or d ''domains'' (JList []) = JList (map JStr xs) \<longrightarrow>
                 ys = map lower (filter (\<lambda>x. x \<noteq> []) xs)))
      \<and> (\<forall>k. k \<notin> set normalized_keys \<longrightarrow> map_of d' k = map_of d k))
   \<and> ((\<forall>kv \<in> set (extras v). fst kv \<notin> set normalized_keys) \<longrightarrow>
        (\<exists>r. normalize_vendor_dict (dict_of v) = Inr r
           \<and> (\<forall>k. map_of r k = map_of (dict_of (normalize_vendor v)) k)))"
proof (intro conjI impI)
  show "(\<exists>r. normalize_vendor_dict d = Inr r) \<longleftrightarrow> well_typed d"
    by (rule normalize_vendor_dict_returns_iff)
next
  assume "\<forall>kv \<in> set (extras v). fst kv \<notin> set normalized_keys"
  then show "\<exists>r. normalize_vendor_dict (dict_of v) = Inr r
           \<and> (\<forall>k. map_of r k = map_of (dict_of (normalize_vendor v)) k)"
    by (rule normalize_vendor_refines)
qed (erule normalize_vendor_dict_result)+

theorem normalize_vendor_dict_spec_counterexample:
  "normalize_vendor_dict [(''id'', JStr ''acme''), (''risk_score'', JNull)] = Inl TypeError
   \<and> normalize_vendor_dict [(''id'', JStr ''acme''), (''risk_score'', JStr ''7'')] = Inl TypeError
   \<and> normalize_vendor_dict [(''id'', JStr ''acme''), (''domains'', JNull)] = Inl TypeError
   \<and> normalize_vendor_dict [(''id'', JStr ''acme''), (''domains'', JList [JNum 1])]
       = Inl AttributeError
   \<and> normalize_vendor_dict [(''id'', JStr ''acme''), (''category'', JList [JStr ''cdn''])]
       = Inl TypeError"
  by code_simp

theorem normalize_vendor_dict_spec_witness:
  "well_typed sample_dict
   \<and> (\<exists>r. normalize_vendor_dict sample_dict = Inr r
        \<and> map_of r ''id'' = Some (JStr ''unknown'')
        \<and> map_of r ''name'' = Some (JStr ''unknown'')
        \<and> map_of r ''company'' = Some (JStr ''Unknown'')
        \<and> map_of r ''gdpr_compliant'' = Some (JBool False)
        \<and> map_of r ''risk_score'' = Some (JNum 10)
        \<and> map_of r ''category'' = Some (JStr ''other'')
        \<and> map_of r ''privacy_policy'' = Some (JStr ''https://x.example/privacy'')
        \<and> (\<exists>ys. map_of r ''domains'' = Some (JList (map JStr ys))
              \<and> (\<forall>y \<in> set ys. lowercase y \<and> y \<noteq> [])))
   \<and> normalize_vendor_dict sample_dict
       = Inr [(''domains'', JList [JStr ''b.com'', JStr ''a.com'']),
              (''category'', JStr ''other''),
              (''risk_score'', JNum 10),
              (''privacy_policy'', JStr ''https://x.example/privacy''),
              (''id'', JStr ''unknown''),
              (''name'', JStr ''unknown''),
              (''company'', JStr ''Unknown''),
              (''gdpr_compliant'', JBool False)]"
proof -
  note spec = normalize_vendor_dict_spec [of sample_dict _ empty_vendor]
  have w: "well_typed sample_dict" by code_simp
  with spec obtain r where r: "normalize_vendor_dict sample_dict = Inr r" by blast
  have g: "get_or sample_dict ''id'' (JStr ''unknown'') = JStr ''unknown''"
    "get_or sample_dict ''name'' (JStr ''unknown'') = JStr ''unknown''"
    "get_or sample_dict ''company'' (JStr ''Unknown'') = JStr ''Unknown''"
    "get_or sample_dict ''gdpr_compliant'' (JBool False) = JBool False"
    "get_or sample_dict ''risk_score'' (JNum 5) = JNum 47"
    "get_or sample_dict ''category'' (JStr ''other'') = JStr ''tracking''"
    "map_of sample_dict ''privacy_policy'' = Some (JStr ''https://x.example/privacy'')"
    "''privacy_policy'' \<notin> set normalized_keys"
    "''tracking'' \<notin> set VALID_CATEGORIES"
    by (simp_all add: get_or_def sample_dict_def normalized_keys_def VALID_CATEGORIES_def)
  from spec [of r] r have c:
    "map_of r ''id'' = Some (get_or sample_dict ''id'' (JStr ''unknown''))"
    "map_of r ''name'' = Some (get_or sample_dict ''name'' (get_or sample_dict ''id'' (JStr ''unknown'')))"
    "map_of r ''company'' = Some (get_or sample_dict ''company'' (JStr ''Unknown''))"
    "map_of r ''gdpr_compliant'' = Some (get_or sample_dict ''gdpr_compliant'' (JBool False))"
    "map_of r ''risk_score'' =
          Some (JNum (case get_or sample_dict ''risk_score'' (JNum 5) of
                        JNum n \<Rightarrow> if n < 1 then 1 else if 10 < n then 10 else n
                      | _ \<Rightarrow> 1))"
    "map_of r ''category'' =
          Some (JStr (case get_or sample_dict ''category'' (JStr ''other'') of
                        JStr c \<Rightarrow> if c \<in> set VALID_CATEGORIES then c else ''other''
                      | _ \<Rightarrow> ''other''))"
    "\<exists>ys. map_of r ''domains'' = Some (JList (map JStr ys))
           \<and> (\<forall>y \<in> set ys. lowercase y \<and> y \<noteq> [])
           \<and> (\<forall>xs. get_or sample_dict ''domains'' (JList []) = JList (map JStr xs) \<longrightarrow>
                 ys = map lower (filter (\<lambda>x. x \<noteq> []) xs))"
    "\<forall>k. k \<notin> set normalized_keys \<longrightarrow> map_of r k = map_of sample_dict k"
    by blast+
  from c(1,2,3,4) g have f1: "map_of r ''id'' = Some (JStr ''unknown'')"
    "map_of r ''name'' = Some (JStr ''unknown'')"
    "map_of r ''company'' = Some (JStr ''Unknown'')"
    "map_of r ''gdpr_compliant'' = Some (JBool False)"
    by simp_all
  from c(5) g(5) have f5: "map_of r ''risk_score'' = Some (JNum 10)" by simp
  from c(6) g(6) g(9) have f6: "map_of r ''category'' = Some (JStr ''other'')" by simp
  from c(8) g(7,8) have f8: "map_of r ''privacy_policy'' = Some (JStr ''https://x.example/privacy'')"
    by simp
  from c(7) have f7: "\<exists>ys. map_of r ''domains'' = Some (JList (map JStr ys))
              \<and> (\<forall>y \<in> set ys. lowercase y \<and> y \<noteq> [])"
    by blast
  have ev: "normalize_vendor_dict sample_dict
       = Inr [(''domains'', JList [JStr ''b.com'', JStr ''a.com'']),
              (''category'', JStr ''other''),
              (''risk_score'', JNum 10),
              (''privacy_policy'', JStr ''https://x.example/privacy''),
              (''id'', JStr ''unknown''),
              (''name'', JStr ''unknown''),
              (''company'', JStr ''Unknown''),
              (''gdpr_compliant'', JBool False)]"
    by code_simp
  from w r f1 f5 f6 f7 f8 ev show ?thesis by blast
qed

section \<open>Well-formed indices: the merge never raises\<close>

lemma other_valid: "''other'' \<in> set VALID_CATEGORIES"
  by (simp add: VALID_CATEGORIES_def)

lemma normal_normalize: "normal (normalize_vendor v)"
  by (simp add: normal_def normalize_vendor_def setdefault_def Let_def lowercase_lower
        lower_Nil_iff other_valid split: option.splits)

lemma map_lower_fix: "\<forall>d \<in> set ds. lowercase d \<and> d \<noteq> [] \<Longrightarrow> map lower ds = ds"
  by (induction ds) (auto simp: lower_fix)

lemma normalize_normal: "normal r \<Longrightarrow> normalize_vendor r = r"
  by (cases r) (auto simp: normal_def normalize_vendor_def setdefault_def Let_def map_lower_fix)

lemma register_apply: "register ds i idx d = (if d \<in> set ds then Some i else idx d)"
  unfolding register_def by (induction ds arbitrary: idx) auto

lemma foldM_inv:
  assumes "\<And>s x. I s \<Longrightarrow> x \<in> set xs \<Longrightarrow> \<exists>s'. f s x = Some s' \<and> I s'" and "I s"
  shows "\<exists>s'. foldM f xs s = Some s' \<and> I s'"
  using assms
proof (induction xs arbitrary: s)
  case Nil
  then show ?case by simp
next
  case (Cons x xs)
  from Cons.prems(1) [of s x] Cons.prems(2) obtain s1 where s1: "f s x = Some s1" "I s1"
    by auto
  have "\<exists>s'. foldM f xs s1 = Some s' \<and> I s'"
    by (rule Cons.IH) (use Cons.prems(1) s1 in auto)
  with s1 show ?case by simp
qed

lemma wf_init: "wf_state init_state"
  by (simp add: wf_state_def init_state_def)

lemma wf_update:
  assumes "wf_state s" "vendor_id r = Some k" "normal r"
    "\<forall>d i. idx d = Some i \<longrightarrow> i = k \<or> map_of (vendors_by_id s) i \<noteq> None"
  shows "wf_state \<lparr> domain_to_id = idx, vendors_by_id = AList.update k r (vendors_by_id s) \<rparr>"
  using assms by (auto simp: wf_state_def distinct_update update_conv')

lemma premium_step_wf:
  assumes "wf_state s"
  shows "\<exists>s'. premium_step s v = Some s' \<and> wf_state s'"
proof -
  obtain k ds where k: "vendor_id (normalize_vendor v) = Some k" "domains (normalize_vendor v) = Some ds"
    using normal_normalize [of v] by (auto simp: normal_def)
  have "wf_state \<lparr> domain_to_id = register ds k (domain_to_id s),
     vendors_by_id = AList.update k (normalize_vendor v) (vendors_by_id s) \<rparr>"
    by (rule wf_update) (use assms k normal_normalize in \<open>auto simp: register_apply wf_state_def split: if_splits\<close>)
  with k show ?thesis by (simp add: premium_step_def)
qed

lemma sorted_set_set: "set (sorted_set xs) = set xs"
  by (simp add: sorted_set_def)

lemma normal_domains_update:
  "normal r \<Longrightarrow> \<forall>d \<in> set ds. lowercase d \<and> d \<noteq> [] \<Longrightarrow> normal (r\<lparr>domains := Some ds\<rparr>)"
  by (simp add: normal_def)

lemma enrich_wf:
  assumes "wf_state s" "normal v" "map_of (vendors_by_id s) m \<noteq> None"
  shows "\<exists>s'. enrich s m v = Some s' \<and> wf_state s'"
proof -
  from assms(3) obtain e where e: "map_of (vendors_by_id s) m = Some e" by auto
  with assms(1) have en: "vendor_id e = Some m" "normal e" by (auto simp: wf_state_def)
  from en obtain eds where eds: "domains e = Some eds" "\<forall>d \<in> set eds. lowercase d \<and> d \<noteq> []"
    by (auto simp: normal_def)
  from assms(2) obtain vds where vds: "domains v = Some vds" "\<forall>d \<in> set vds. lowercase d \<and> d \<noteq> []"
    by (auto simp: normal_def)
  let ?nd = "filter (\<lambda>d. d \<notin> set eds) vds"
  have "wf_state \<lparr> domain_to_id = register ?nd m (domain_to_id s),
     vendors_by_id = AList.update m (e\<lparr>domains := Some (sorted_set (eds @ ?nd))\<rparr>) (vendors_by_id s) \<rparr>"
    by (rule wf_update) (use assms en eds vds in \<open>auto simp: register_apply wf_state_def sorted_set_set intro!: normal_domains_update split: if_splits\<close>)
  with e eds vds assms(1) show ?thesis by (auto simp: enrich_def Let_def)
qed

lemma absorb_wf:
  assumes "wf_state s" "normal v" "map_of (vendors_by_id s) m \<noteq> None"
  shows "\<exists>s'. absorb s m v = Some s' \<and> wf_state s'"
proof -
  from assms(3) obtain e where e: "map_of (vendors_by_id s) m = Some e" by auto
  with assms(1) have en: "vendor_id e = Some m" "normal e" by (auto simp: wf_state_def)
  from en obtain eds where eds: "domains e = Some eds" "\<forall>d \<in> set eds. lowercase d \<and> d \<noteq> []"
    by (auto simp: normal_def)
  from assms(2) obtain vds where vds: "domains v = Some vds" "\<forall>d \<in> set vds. lowercase d \<and> d \<noteq> []"
    by (auto simp: normal_def)
  have "wf_state \<lparr> domain_to_id = register vds m (domain_to_id s),
     vendors_by_id = AList.update m (e\<lparr>domains := Some (sorted_set (eds @ vds))\<rparr>) (vendors_by_id s) \<rparr>"
    by (rule wf_update) (use assms en eds vds in \<open>auto simp: register_apply wf_state_def sorted_set_set intro!: normal_domains_update split: if_splits\<close>)
  with e eds vds show ?thesis by (auto simp: absorb_def)
qed

lemma normal_id_update: "normal v \<Longrightarrow> normal (v\<lparr>vendor_id := Some k\<rparr>)"
  by (simp add: normal_def)

lemma insert_new_wf:
  assumes "wf_state s" "normal v"
  shows "\<exists>s'. insert_new suffix s v = Some s' \<and> wf_state s'"
proof -
  from assms(2) obtain k vds where k: "vendor_id v = Some k" "domains v = Some vds"
    by (auto simp: normal_def)
  let ?taken = "map_of (vendors_by_id s) k \<noteq> None"
  let ?vid = "if ?taken then k @ suffix else k"
  let ?v = "if ?taken then v\<lparr>vendor_id := Some ?vid\<rparr> else v"
  have "wf_state \<lparr> domain_to_id = register vds ?vid (domain_to_id s),
     vendors_by_id = AList.update ?vid ?v (vendors_by_id s) \<rparr>"
    by (rule wf_update) (use assms k in \<open>auto simp: register_apply wf_state_def normal_id_update split: if_splits\<close>)
  with k show ?thesis by (auto simp: insert_new_def Let_def)
qed

lemma wf_idx:
  "wf_state s \<Longrightarrow> domain_to_id s d = Some i \<Longrightarrow> \<exists>r. map_of (vendors_by_id s) i = Some r"
  unfolding wf_state_def by blast

lemma find_premium_total:
  assumes "wf_state s"
  shows "\<exists>m. find_premium s ds = Some m \<and> (\<forall>i. m = Some i \<longrightarrow> map_of (vendors_by_id s) i \<noteq> None)"
proof (induction ds)
  case Nil
  then show ?case by simp
next
  case (Cons d ds)
  show ?case
  proof (cases "domain_to_id s d")
    case None
    with Cons show ?thesis by simp
  next
    case (Some i)
    with assms obtain r where "map_of (vendors_by_id s) i = Some r"
      by (auto dest: wf_idx)
    with Some Cons show ?thesis by simp
  qed
qed

lemma first_owner_key:
  "wf_state s \<Longrightarrow> first_owner (domain_to_id s) ds = Some i \<Longrightarrow> map_of (vendors_by_id s) i \<noteq> None"
  by (induction ds) (auto dest: wf_idx split: option.splits)

lemma ddg_step_wf:
  assumes "wf_state s"
  shows "\<exists>s'. ddg_step s v = Some s' \<and> wf_state s'"
proof -
  let ?v = "normalize_vendor v"
  have n: "normal ?v" by (rule normal_normalize)
  then obtain ds where ds: "domains ?v = Some ds" by (auto simp: normal_def)
  from find_premium_total [OF assms, of ds] obtain m where
    m: "find_premium s ds = Some m" "\<forall>i. m = Some i \<longrightarrow> map_of (vendors_by_id s) i \<noteq> None"
    by blast
  show ?thesis
  proof (cases "truthy m")
    case True
    then obtain i where "m = Some i" by (auto simp: truthy_def split: option.splits)
    with m enrich_wf [OF assms n, of i] ds True show ?thesis
      by (simp add: ddg_step_def)
  next
    case False
    show ?thesis
    proof (cases "truthy (first_owner (domain_to_id s) ds)")
      case True
      then obtain i where i: "first_owner (domain_to_id s) ds = Some i"
        by (auto simp: truthy_def split: option.splits)
      from first_owner_key [OF assms i] absorb_wf [OF assms n, of i] ds m False True i
      show ?thesis by (simp add: ddg_step_def)
    next
      case f2: False
      with insert_new_wf [OF assms n, of "''-ddg''"] ds m False show ?thesis
        by (simp add: ddg_step_def)
    qed
  qed
qed

lemma dc_step_wf:
  assumes "wf_state s"
  shows "\<exists>s'. dc_step s v = Some s' \<and> wf_state s'"
proof -
  let ?v = "normalize_vendor v"
  have n: "normal ?v" by (rule normal_normalize)
  then obtain ds where ds: "domains ?v = Some ds" by (auto simp: normal_def)
  show ?thesis
  proof (cases "truthy (first_owner (domain_to_id s) ds)")
    case True
    then obtain i where i: "first_owner (domain_to_id s) ds = Some i"
      by (auto simp: truthy_def split: option.splits)
    from first_owner_key [OF assms i] enrich_wf [OF assms n, of i] ds True i
    show ?thesis by (simp add: dc_step_def)
  next
    case False
    with insert_new_wf [OF assms n, of "''-dc''"] ds show ?thesis
      by (simp add: dc_step_def)
  qed
qed

lemma merge_state_wf: "\<exists>s. merge_state p d c = Some s \<and> wf_state s"
proof -
  obtain s1 where s1: "foldM premium_step (map mark_premium p) init_state = Some s1" "wf_state s1"
    using foldM_inv [of wf_state "map mark_premium p" premium_step init_state] premium_step_wf wf_init
    by blast
  obtain s2 where s2: "foldM ddg_step (map mark_standard d) s1 = Some s2" "wf_state s2"
    using foldM_inv [of wf_state "map mark_standard d" ddg_step s1] ddg_step_wf s1(2)
    by blast
  obtain s3 where s3: "foldM dc_step (map mark_standard c) s2 = Some s3" "wf_state s3"
    using foldM_inv [of wf_state "map mark_standard c" dc_step s2] dc_step_wf s2(2)
    by blast
  from s1 s2 s3 show ?thesis by (simp add: merge_state_def)
qed

section \<open>The form of the output\<close>

lemma cleanup_fields_simps:
  "vendor_id (cleanup_vendor v) = vendor_id v"
  "domains (cleanup_vendor v) = domains v"
  "name (cleanup_vendor v) = name v"
  "company (cleanup_vendor v) = company v"
  "category (cleanup_vendor v) = category v"
  "gdpr_compliant (cleanup_vendor v) = gdpr_compliant v"
  "risk_score (cleanup_vendor v) = risk_score v"
  "tier (cleanup_vendor v) = tier v"
  by (simp_all add: cleanup_vendor_def Let_def)

lemma normal_cleanup: "normal (cleanup_vendor v) = normal v"
  by (simp add: normal_def cleanup_fields_simps)

lemma extras_cleanup:
  "extras (cleanup_vendor v) = filter (\<lambda>kv. fst kv \<notin> set cleanup_fields) (extras v)"
  by (simp add: cleanup_vendor_def Let_def)

lemma clean_extras_cleanup: "clean_extras (cleanup_vendor v)"
  by (simp add: clean_extras_def extras_cleanup)

lemma map_filter_Nil: "\<forall>x \<in> set xs. f x = None \<Longrightarrow> List.map_filter f xs = []"
  by (induction xs) (auto simp: map_filter_simps)

lemma cleanup_clean: "clean_extras v \<Longrightarrow> cleanup_vendor v = v"
proof -
  assume c: "clean_extras v"
  have "\<forall>field \<in> set cleanup_fields. map_of (extras v) field = None"
  proof
    fix field assume "field \<in> set cleanup_fields"
    with c have "field \<notin> fst ` set (extras v)" by (auto simp: clean_extras_def)
    then show "map_of (extras v) field = None" by (simp add: map_of_eq_None_iff)
  qed
  then have m: "List.map_filter (\<lambda>field. map_option (Pair field) (map_of (extras v) field)) cleanup_fields = []"
    by (intro map_filter_Nil) simp
  from c have "filter (\<lambda>kv. fst kv \<notin> set cleanup_fields) (extras v) = extras v"
    by (simp add: clean_extras_def)
  with m show ?thesis by (simp add: cleanup_vendor_def)
qed

lemma wf_lookup:
  "wf_state s \<Longrightarrow> map_of (vendors_by_id s) k = Some r \<Longrightarrow> vendor_id r = Some k \<and> normal r"
  unfolding wf_state_def by blast

lemma wf_entry:
  assumes "wf_state s" "kv \<in> set (vendors_by_id s)"
  shows "vendor_id (snd kv) = Some (fst kv) \<and> normal (snd kv)"
proof -
  from assms(1) have "distinct (map fst (vendors_by_id s))"
    unfolding wf_state_def by blast
  with assms(2) have "map_of (vendors_by_id s) (fst kv) = Some (snd kv)"
    using map_of_is_SomeI [of "vendors_by_id s" "fst kv" "snd kv"] by simp
  with assms(1) show ?thesis by (rule wf_lookup)
qed

lemma merge_vendors_form:
  "\<exists>s. merge_state p d c = Some s \<and> wf_state s
     \<and> merge_vendors p d c =
         Some (sort_key (\<lambda>v. the (vendor_id v)) (map (\<lambda>kv. cleanup_vendor (snd kv)) (vendors_by_id s)))"
proof -
  from merge_state_wf [of p d c] obtain s where s: "merge_state p d c = Some s" "wf_state s"
    by blast
  have "vendor_id (snd kv) \<noteq> None" if "kv \<in> set (vendors_by_id s)" for kv
    using wf_entry [OF s(2) that] by simp
  then have "list_all (\<lambda>v. vendor_id v \<noteq> None) (map (\<lambda>kv. cleanup_vendor (snd kv)) (vendors_by_id s))"
    by (simp add: list_all_iff cleanup_fields_simps)
  with s show ?thesis by (auto simp: merge_vendors_def sort_by_id_def)
qed

lemma wf_ids: "wf_state s \<Longrightarrow> map (\<lambda>kv. the (vendor_id (cleanup_vendor (snd kv)))) (vendors_by_id s) = map fst (vendors_by_id s)"
  by (rule map_cong) (auto simp: cleanup_fields_simps dest: wf_entry)

lemma merge_vendors_ids:
  assumes "merge_vendors p d c = Some out"
  shows "sorted (map (\<lambda>v. the (vendor_id v)) out) \<and> distinct (map (\<lambda>v. the (vendor_id v)) out)
     \<and> (\<forall>r \<in> set out. normal r \<and> clean_extras r)"
proof -
  from merge_vendors_form [of p d c] assms obtain s where s: "wf_state s"
    "out = sort_key (\<lambda>v. the (vendor_id v)) (map (\<lambda>kv. cleanup_vendor (snd kv)) (vendors_by_id s))"
    by auto
  let ?ys = "map (\<lambda>kv. cleanup_vendor (snd kv)) (vendors_by_id s)"
  let ?f = "\<lambda>v. the (vendor_id v)"
  have ids: "map ?f ?ys = map fst (vendors_by_id s)"
    using wf_ids [OF s(1)] by (simp add: comp_def)
  from s(1) have "distinct (map ?f ?ys)" unfolding ids wf_state_def by blast
  then have dy: "distinct ?ys \<and> inj_on ?f (set ?ys)"
    using distinct_map [of ?f ?ys] by blast
  have 1: "sorted (map ?f out)" unfolding s(2) by (rule sorted_sort_key)
  have "distinct (sort_key ?f ?ys) \<and> inj_on ?f (set (sort_key ?f ?ys))"
    using dy by simp
  then have 2: "distinct (map ?f out)" unfolding s(2)
    using distinct_map [of ?f "sort_key ?f ?ys"] by blast
  have 3: "\<forall>r \<in> set out. normal r \<and> clean_extras r"
    unfolding s(2) using s(1) by (auto simp: normal_cleanup clean_extras_cleanup dest: wf_entry)
  from 1 2 3 show ?thesis by blast
qed

section \<open>Merging the output again\<close>

lemma update_new: "map_of al k = None \<Longrightarrow> AList.update k v al = al @ [(k, v)]"
  by (induction al) (auto split: if_splits)

lemma normal_mark_premium: "normal r \<Longrightarrow> normal (mark_premium r)"
  by (simp add: normal_def mark_premium_def)

lemma premium_fold_normal:
  assumes "\<forall>r \<in> set xs. normal r" "distinct (map (\<lambda>v. the (vendor_id v)) xs)"
    "\<forall>r \<in> set xs. map_of (vendors_by_id s) (the (vendor_id r)) = None"
  shows "\<exists>s'. foldM premium_step (map mark_premium xs) s = Some s'
     \<and> vendors_by_id s' = vendors_by_id s @ map (\<lambda>r. (the (vendor_id r), mark_premium r)) xs"
  using assms
proof (induction xs arbitrary: s)
  case Nil
  then show ?case by simp
next
  case (Cons x xs)
  from Cons.prems(1) have nx: "normal (mark_premium x)" by (simp add: normal_mark_premium)
  then obtain k ds where k: "vendor_id (mark_premium x) = Some k" "domains (mark_premium x) = Some ds"
    by (auto simp: normal_def)
  then have kx: "the (vendor_id x) = k" by (simp add: mark_premium_def)
  let ?s1 = "\<lparr> domain_to_id = register ds k (domain_to_id s),
       vendors_by_id = vendors_by_id s @ [(k, mark_premium x)] \<rparr>"
  from Cons.prems(3) kx have "map_of (vendors_by_id s) k = None" by auto
  with k nx have step: "premium_step s (mark_premium x) = Some ?s1"
    by (simp add: premium_step_def normalize_normal update_new)
  have "\<exists>s'. foldM premium_step (map mark_premium xs) ?s1 = Some s'
     \<and> vendors_by_id s' = vendors_by_id ?s1 @ map (\<lambda>r. (the (vendor_id r), mark_premium r)) xs"
  proof (rule Cons.IH)
    show "\<forall>r \<in> set xs. normal r" using Cons.prems(1) by simp
    show "distinct (map (\<lambda>v. the (vendor_id v)) xs)" using Cons.prems(2) by simp
    show "\<forall>r \<in> set xs. map_of (vendors_by_id ?s1) (the (vendor_id r)) = None"
    proof
      fix r assume r: "r \<in> set xs"
      with Cons.prems(2) kx have "the (vendor_id r) \<noteq> k" by (auto simp: image_iff)
      with Cons.prems(3) r show "map_of (vendors_by_id ?s1) (the (vendor_id r)) = None"
        by (simp add: map_add_def)
    qed
  qed
  with step kx show ?case by auto
qed

text \<open>
  C5, as amended. The merge always returns a list, and merging that list again as the
  premium input, with no secondary records, returns the same records in the same order
  with every tier set to premium: nothing else changes, not the domains, not the nested
  import metadata.
\<close>

theorem remerge_fixpoint:
  "\<exists>out. merge_vendors p d c = Some out \<and> merge_vendors out [] [] = Some (map mark_premium out)"
proof -
  from merge_vendors_form [of p d c] obtain out where out: "merge_vendors p d c = Some out"
    by blast
  let ?f = "\<lambda>v. the (vendor_id v)"
  from merge_vendors_ids [OF out] have
    srt: "sorted (map ?f out)" and dst: "distinct (map ?f out)"
    and nrm: "\<forall>r \<in> set out. normal r" and cln: "\<forall>r \<in> set out. clean_extras r"
    by auto
  from premium_fold_normal [of out init_state] nrm dst obtain s1 where
    s1: "foldM premium_step (map mark_premium out) init_state = Some s1"
      "vendors_by_id s1 = map (\<lambda>r. (?f r, mark_premium r)) out"
    by (auto simp: init_state_def)
  then have ms: "merge_state out [] [] = Some s1" by (simp add: merge_state_def)
  have cl: "map (\<lambda>kv. cleanup_vendor (snd kv)) (vendors_by_id s1) = map mark_premium out"
    unfolding s1(2) using cln
    by (auto simp: comp_def clean_extras_def mark_premium_def intro!: cleanup_clean)
  have ids: "map ?f (map mark_premium out) = map ?f out"
    by (simp add: comp_def mark_premium_def)
  have la: "list_all (\<lambda>v. vendor_id v \<noteq> None) (map mark_premium out)"
    using nrm by (auto simp: list_all_iff normal_def mark_premium_def)
  have "sort_key ?f (map mark_premium out) = map mark_premium out"
    by (rule sort_key_id_if_sorted) (simp only: ids srt)
  with ms cl la have "merge_vendors out [] [] = Some (map mark_premium out)"
    by (simp add: merge_vendors_def sort_by_id_def)
  with out show ?thesis by blast
qed

theorem remerge_fixpoint_witness:
  "merge_vendors [] [vendor_of ''x'' [''a.com'']] [] = Some [stored_vendor]
   \<and> merge_vendors [stored_vendor] [] [] = Some [mark_premium stored_vendor]"
proof -
  have e: "merge_vendors [] [vendor_of ''x'' [''a.com'']] [] = Some [stored_vendor]"
    by code_simp
  from remerge_fixpoint [of "[]" "[vendor_of ''x'' [''a.com'']]" "[]"] e show ?thesis
    by simp
qed

theorem remerge_fixpoint_counterexample:
  "merge_vendors [] [vendor_of ''x'' [''a.com'']] [] = Some [stored_vendor]
   \<and> merge_vendors [stored_vendor] [] [] \<noteq> Some [stored_vendor]
   \<and> map_option (map tier) (merge_vendors [stored_vendor] [] []) = Some [Some ''premium'']
   \<and> tier stored_vendor = Some ''standard''"
  by code_simp

section \<open>The clean-up\<close>

lemma map_of_metadata:
  "map_of (List.map_filter (\<lambda>field. map_option (Pair field) (g field)) fs) k
     = (if k \<in> set fs then g k else None)"
proof (induction fs)
  case Nil
  then show ?case by (simp add: map_filter_simps)
next
  case (Cons f fs)
  then show ?case by (cases "g f") (auto simp: map_filter_simps)
qed

lemma map_of_popped:
  "map_of (filter (\<lambda>kv. fst kv \<notin> set fs) xs) k = (if k \<in> set fs then None else map_of xs k)"
  by (induction xs) auto

lemma metadata_Nil_iff:
  "List.map_filter (\<lambda>field. map_option (Pair field) (g field)) fs = [] \<longleftrightarrow> (\<forall>k \<in> set fs. g k = None)"
proof (induction fs)
  case Nil
  then show ?case by (simp add: map_filter_simps)
next
  case (Cons f fs)
  then show ?case by (cases "g f") (auto simp: map_filter_simps)
qed

lemma cleanup_vendor_effect:
  "(\<forall>k \<in> set cleanup_fields. map_of (extras (cleanup_vendor v)) k = None)
   \<and> (\<forall>k. k \<notin> set cleanup_fields \<longrightarrow> map_of (extras (cleanup_vendor v)) k = map_of (extras v) k)
   \<and> ((\<exists>k \<in> set cleanup_fields. map_of (extras v) k \<noteq> None) \<longrightarrow>
        (\<exists>m. import_metadata (cleanup_vendor v) = Some m
           \<and> (\<forall>k. map_of m k = (if k \<in> set cleanup_fields then map_of (extras v) k else None))))
   \<and> ((\<forall>k \<in> set cleanup_fields. map_of (extras v) k = None) \<longrightarrow>
        import_metadata (cleanup_vendor v) = import_metadata v)"
proof -
  let ?m = "List.map_filter (\<lambda>field. map_option (Pair field) (map_of (extras v) field)) cleanup_fields"
  have 1: "\<forall>k \<in> set cleanup_fields. map_of (extras (cleanup_vendor v)) k = None"
    by (simp add: extras_cleanup map_of_popped)
  have 2: "\<forall>k. k \<notin> set cleanup_fields \<longrightarrow> map_of (extras (cleanup_vendor v)) k = map_of (extras v) k"
    by (simp add: extras_cleanup map_of_popped)
  have 3: "import_metadata (cleanup_vendor v) = Some ?m
      \<and> (\<forall>k. map_of ?m k = (if k \<in> set cleanup_fields then map_of (extras v) k else None))"
    if "\<exists>k \<in> set cleanup_fields. map_of (extras v) k \<noteq> None"
  proof -
    from that have "?m \<noteq> []" by (simp add: metadata_Nil_iff)
    then show ?thesis by (simp add: cleanup_vendor_def map_of_metadata)
  qed
  have 4: "import_metadata (cleanup_vendor v) = import_metadata v"
    if "\<forall>k \<in> set cleanup_fields. map_of (extras v) k = None"
  proof -
    from that have "?m = []" by (simp add: metadata_Nil_iff)
    then show ?thesis by (simp add: cleanup_vendor_def)
  qed
  from 1 2 3 4 show ?thesis by blast
qed

text \<open>
  C9, as amended. The output is the set of the stored records after the clean-up. The
  clean-up of a record removes from its top level exactly the keys \<open>source\<close>,
  \<open>prevalence\<close>, \<open>fingerprinting\<close>, \<open>cookies\<close>, \<open>sites\<close>, \<open>disconnect_category\<close> and
  \<open>website\<close>; every other key, \<open>privacy_policy\<close> among them, stays where it is. When at
  least one of the seven keys was present, \<open>_import_metadata\<close> is set to the dict of exactly
  the removed keys with their values; when none was, \<open>_import_metadata\<close> is left as the
  record had it, present or not.
\<close>

theorem cleanup_spec:
  "\<exists>s out. merge_state p d c = Some s \<and> merge_vendors p d c = Some out
     \<and> set out = (\<lambda>kv. cleanup_vendor (snd kv)) ` set (vendors_by_id s)
     \<and> ''privacy_policy'' \<notin> set cleanup_fields
     \<and> (\<forall>v. (\<forall>k \<in> set cleanup_fields. map_of (extras (cleanup_vendor v)) k = None)
          \<and> (\<forall>k. k \<notin> set cleanup_fields \<longrightarrow>
                map_of (extras (cleanup_vendor v)) k = map_of (extras v) k)
          \<and> ((\<exists>k \<in> set cleanup_fields. map_of (extras v) k \<noteq> None) \<longrightarrow>
               (\<exists>m. import_metadata (cleanup_vendor v) = Some m
                  \<and> (\<forall>k. map_of m k =
                        (if k \<in> set cleanup_fields then map_of (extras v) k else None))))
          \<and> ((\<forall>k \<in> set cleanup_fields. map_of (extras v) k = None) \<longrightarrow>
               import_metadata (cleanup_vendor v) = import_metadata v))"
proof -
  from merge_vendors_form [of p d c] obtain s where
    s: "merge_state p d c = Some s"
       "merge_vendors p d c =
         Some (sort_key (\<lambda>v. the (vendor_id v)) (map (\<lambda>kv. cleanup_vendor (snd kv)) (vendors_by_id s)))"
    by blast
  have pp: "''privacy_policy'' \<notin> set cleanup_fields"
    by (simp add: cleanup_fields_def)
  from s pp cleanup_vendor_effect show ?thesis by simp
qed

theorem cleanup_spec_witness:
  "(\<exists>k \<in> set cleanup_fields. map_of (extras tracked_vendor) k \<noteq> None)
   \<and> map_of (extras (cleanup_vendor tracked_vendor)) ''prevalence'' = None
   \<and> map_of (extras (cleanup_vendor tracked_vendor)) ''privacy_policy''
       = Some (JStr ''https://x.example/privacy'')
   \<and> (\<exists>m. import_metadata (cleanup_vendor tracked_vendor) = Some m
         \<and> map_of m ''prevalence'' = Some (JNum 3) \<and> map_of m ''privacy_policy'' = None)"
proof -
  have h: "\<exists>k \<in> set cleanup_fields. map_of (extras tracked_vendor) k \<noteq> None"
    by code_simp
  have c: "''prevalence'' \<in> set cleanup_fields" "''privacy_policy'' \<notin> set cleanup_fields"
    by (simp_all add: cleanup_fields_def)
  have e: "map_of (extras tracked_vendor) ''prevalence'' = Some (JNum 3)"
    "map_of (extras tracked_vendor) ''privacy_policy'' = Some (JStr ''https://x.example/privacy'')"
    by (simp_all add: tracked_vendor_def)
  from cleanup_spec [of "[]" "[]" "[]"] have spec:
    "(\<forall>k \<in> set cleanup_fields. map_of (extras (cleanup_vendor tracked_vendor)) k = None)"
    "(\<forall>k. k \<notin> set cleanup_fields \<longrightarrow>
         map_of (extras (cleanup_vendor tracked_vendor)) k = map_of (extras tracked_vendor) k)"
    "(\<exists>k \<in> set cleanup_fields. map_of (extras tracked_vendor) k \<noteq> None) \<longrightarrow>
        (\<exists>m. import_metadata (cleanup_vendor tracked_vendor) = Some m
           \<and> (\<forall>k. map_of m k =
                 (if k \<in> set cleanup_fields then map_of (extras tracked_vendor) k else None)))"
    by blast+
  from spec(1) c(1) have 1: "map_of (extras (cleanup_vendor tracked_vendor)) ''prevalence'' = None"
    by blast
  from spec(2) c(2) e(2) have 2: "map_of (extras (cleanup_vendor tracked_vendor)) ''privacy_policy''
       = Some (JStr ''https://x.example/privacy'')"
    by simp
  from spec(3) h obtain m where m: "import_metadata (cleanup_vendor tracked_vendor) = Some m"
    "\<forall>k. map_of m k = (if k \<in> set cleanup_fields then map_of (extras tracked_vendor) k else None)"
    by blast
  from m(2) c e have "map_of m ''prevalence'' = Some (JNum 3) \<and> map_of m ''privacy_policy'' = None"
    by simp
  with m(1) h 1 2 show ?thesis by blast
qed

theorem cleanup_spec_counterexample:
  "map_option (map (\<lambda>v. (extras v, import_metadata v))) (merge_vendors [] [tracked_vendor] [])
     = Some [([(''privacy_policy'', JStr ''https://x.example/privacy'')],
              Some [(''prevalence'', JNum 3)])]
   \<and> map_option (map (\<lambda>v. (extras v, import_metadata v)))
       (merge_vendors [(vendor_of ''y'' [''b.com''])\<lparr> import_metadata := Some [(''sites'', JNum 7)] \<rparr>] [] [])
     = Some [([], Some [(''sites'', JNum 7)])]"
  by code_simp

section \<open>The scan for an owner\<close>

lemma first_owner_Some_iff:
  "first_owner idx ds = Some i \<longleftrightarrow>
     (\<exists>pre d post. ds = pre @ d # post \<and> (\<forall>x \<in> set pre. idx x = None) \<and> idx d = Some i)"
proof (induction ds)
  case Nil
  then show ?case by simp
next
  case (Cons a ds)
  show ?case
  proof (cases "idx a")
    case None
    have "(\<exists>pre d post. a # ds = pre @ d # post \<and> (\<forall>x \<in> set pre. idx x = None) \<and> idx d = Some i)
      \<longleftrightarrow> (\<exists>pre d post. ds = pre @ d # post \<and> (\<forall>x \<in> set pre. idx x = None) \<and> idx d = Some i)"
      (is "?L \<longleftrightarrow> ?R")
    proof
      assume ?L
      then obtain pre d post where h: "a # ds = pre @ d # post" "\<forall>x \<in> set pre. idx x = None" "idx d = Some i"
        by blast
      with None obtain pre' where "pre = a # pre'" by (cases pre) auto
      with h show ?R by auto
    next
      assume ?R
      then obtain pre d post where h: "ds = pre @ d # post" "\<forall>x \<in> set pre. idx x = None" "idx d = Some i"
        by blast
      with None have "a # ds = (a # pre) @ d # post \<and> (\<forall>x \<in> set (a # pre). idx x = None) \<and> idx d = Some i"
        by simp
      then show ?L by blast
    qed
    with None Cons show ?thesis by simp
  next
    case (Some j)
    have "(\<exists>pre d post. a # ds = pre @ d # post \<and> (\<forall>x \<in> set pre. idx x = None) \<and> idx d = Some i)
      \<longleftrightarrow> j = i" (is "?L \<longleftrightarrow> _")
    proof
      assume ?L
      then obtain pre d post where h: "a # ds = pre @ d # post" "\<forall>x \<in> set pre. idx x = None" "idx d = Some i"
        by blast
      with Some have "pre = []" by (cases pre) auto
      with h Some show "j = i" by simp
    next
      assume "j = i"
      with Some have "a # ds = [] @ a # ds \<and> (\<forall>x \<in> set []. idx x = None) \<and> idx a = Some i"
        by simp
      then show ?L by blast
    qed
    with Some show ?thesis by auto
  qed
qed

lemma first_owner_None_iff: "first_owner idx ds = None \<longleftrightarrow> (\<forall>d \<in> set ds. idx d = None)"
  by (induction ds) (auto split: option.splits)

text \<open>
  C6, as amended. The scan returns the owner of the first domain of the list that is in
  \<open>domain_to_id\<close>, and none exactly when no domain of the list is in it. The list scanned
  is the candidate's stored domains in their given order, lower-cased and without the
  empty strings: \<open>normalize_vendor\<close> does not sort. A Disconnect candidate is merged into
  that owner, and so is a DuckDuckGo candidate that has no premium owner (the owner's id
  being a non-empty string). The result is a function of the inputs.
\<close>

theorem first_match_wins:
  "(first_owner idx ds = Some i \<longleftrightarrow>
      (\<exists>pre d post. ds = pre @ d # post \<and> (\<forall>x \<in> set pre. idx x = None) \<and> idx d = Some i))
   \<and> (first_owner idx ds = None \<longleftrightarrow> (\<forall>d \<in> set ds. idx d = None))
   \<and> domains (normalize_vendor v) =
        Some (map lower (filter (\<lambda>d. d \<noteq> []) (case domains v of None \<Rightarrow> [] | Some xs \<Rightarrow> xs)))
   \<and> (domains (normalize_vendor v) = Some nds \<and> first_owner (domain_to_id s) nds = Some m \<and> m \<noteq> []
        \<longrightarrow> dc_step s v = enrich s m (normalize_vendor v))
   \<and> (domains (normalize_vendor v) = Some nds \<and> find_premium s nds = Some None
        \<and> first_owner (domain_to_id s) nds = Some m \<and> m \<noteq> []
        \<longrightarrow> ddg_step s v = absorb s m (normalize_vendor v))"
proof -
  have 3: "domains (normalize_vendor v) =
        Some (map lower (filter (\<lambda>d. d \<noteq> []) (case domains v of None \<Rightarrow> [] | Some xs \<Rightarrow> xs)))"
    by (simp add: normalize_vendor_def setdefault_def Let_def)
  have 4: "dc_step s v = enrich s m (normalize_vendor v)"
    if "domains (normalize_vendor v) = Some nds" "first_owner (domain_to_id s) nds = Some m" "m \<noteq> []"
    using that by (simp add: dc_step_def truthy_def)
  have 5: "ddg_step s v = absorb s m (normalize_vendor v)"
    if "domains (normalize_vendor v) = Some nds" "find_premium s nds = Some None"
      "first_owner (domain_to_id s) nds = Some m" "m \<noteq> []"
    using that by (simp add: ddg_step_def truthy_def)
  from first_owner_Some_iff [of idx ds i] first_owner_None_iff [of idx ds] 3 4 5
  show ?thesis by blast
qed

theorem first_match_wins_witness:
  "first_owner sample_index [''c.com'', ''b.com'', ''a.com''] = Some ''y''
   \<and> domains (normalize_vendor (vendor_of ''z'' [''c.com'', ''B.com'', ''a.com'']))
       = Some [''c.com'', ''b.com'', ''a.com'']
   \<and> dc_step owner_state (vendor_of ''z'' [''c.com'', ''B.com'', ''a.com''])
       = enrich owner_state ''y''
           (normalize_vendor (vendor_of ''z'' [''c.com'', ''B.com'', ''a.com'']))
   \<and> map_option (\<lambda>s. map (\<lambda>kv. (fst kv, domains (snd kv))) (vendors_by_id s))
        (dc_step owner_state (vendor_of ''z'' [''c.com'', ''B.com'', ''a.com'']))
       = Some [(''x'', Some [''a.com'']), (''y'', Some [''a.com'', ''b.com'', ''c.com''])]"
proof -
  let ?s = "owner_state"
  let ?v = "vendor_of ''z'' [''c.com'', ''B.com'', ''a.com'']"
  let ?ds = "[''c.com'', ''b.com'', ''a.com'']"
  note fm = first_match_wins [of sample_index ?ds "''y''" ?v ?ds ?s "''y''"]
  have "?ds = [''c.com''] @ ''b.com'' # [''a.com''] \<and> (\<forall>x \<in> set [''c.com'']. sample_index x = None)
     \<and> sample_index ''b.com'' = Some ''y''"
    by (simp add: sample_index_def)
  then have "\<exists>pre d post. ?ds = pre @ d # post \<and> (\<forall>x \<in> set pre. sample_index x = None)
     \<and> sample_index d = Some ''y''"
    by blast
  with fm have fo: "first_owner sample_index ?ds = Some ''y''" by blast
  have nd: "domains (normalize_vendor ?v) = Some ?ds" by code_simp
  have fo': "first_owner (domain_to_id ?s) ?ds = Some ''y''" using fo by (simp add: owner_state_def)
  have ne: "''y'' \<noteq> []" by simp
  from fm fo' nd ne have st: "dc_step ?s ?v = enrich ?s ''y'' (normalize_vendor ?v)" by blast
  have ev: "map_option (\<lambda>s. map (\<lambda>kv. (fst kv, domains (snd kv))) (vendors_by_id s)) (dc_step ?s ?v)
       = Some [(''x'', Some [''a.com'']), (''y'', Some [''a.com'', ''b.com'', ''c.com''])]"
    by code_simp
  from fo nd st ev show ?thesis by blast
qed

theorem first_match_wins_counterexample:
  "domains (normalize_vendor (vendor_of ''z'' [''b.com'', ''a.com''])) = Some [''b.com'', ''a.com'']
   \<and> \<not> sorted [''b.com'', ''a.com'']
   \<and> summary (merge_vendors []
        [vendor_of ''x'' [''a.com''], vendor_of ''y'' [''b.com''], vendor_of ''z'' [''b.com'', ''a.com'']] [])
     = Some [(Some ''x'', Some [''a.com''], Some ''standard''),
             (Some ''y'', Some [''a.com'', ''b.com''], Some ''standard'')]"
  by code_simp

section \<open>Premium tier on a secondary record\<close>

lemma find_premium_finds:
  assumes "wf_state s" "d \<in> set ds" "domain_to_id s d = Some i"
    "map_of (vendors_by_id s) i = Some r" "tier r = Some ''premium''"
  shows "\<exists>m e. find_premium s ds = Some (Some m) \<and> map_of (vendors_by_id s) m = Some e
     \<and> tier e = Some ''premium''"
  using assms(2)
proof (induction ds)
  case Nil
  then show ?case by simp
next
  case (Cons a ds)
  show ?case
  proof (cases "domain_to_id s a")
    case None
    with Cons assms(3) show ?thesis by auto
  next
    case (Some j)
    with assms(1) obtain e where e: "map_of (vendors_by_id s) j = Some e"
      by (auto dest: wf_idx)
    show ?thesis
    proof (cases "tier e = Some ''premium''")
      case True
      with Some e show ?thesis by simp
    next
      case False
      with Some e assms(3,4,5) have "a \<noteq> d" by auto
      with Cons have "d \<in> set ds" by simp
      with Cons.IH Some e False show ?thesis by simp
    qed
  qed
qed

lemma insert_new_stores:
  assumes "insert_new suffix s w = Some s'"
  shows "\<exists>k r. map_of (vendors_by_id s') k = Some r \<and> tier r = tier w
     \<and> (\<forall>d \<in> set (dom_list w). domain_to_id s' d = Some k)"
proof -
  from assms obtain k ds where k: "vendor_id w = Some k" "domains w = Some ds"
    by (auto simp: insert_new_def Let_def split: Option.bind_splits if_splits)
  let ?taken = "map_of (vendors_by_id s) k \<noteq> None"
  let ?vid = "if ?taken then k @ suffix else k"
  let ?v = "if ?taken then w\<lparr>vendor_id := Some ?vid\<rparr> else w"
  from assms k have s': "s' = \<lparr> domain_to_id = register ds ?vid (domain_to_id s),
     vendors_by_id = AList.update ?vid ?v (vendors_by_id s) \<rparr>"
    by (auto simp: insert_new_def Let_def)
  have "map_of (vendors_by_id s') ?vid = Some ?v \<and> tier ?v = tier w
     \<and> (\<forall>d \<in> set (dom_list w). domain_to_id s' d = Some ?vid)"
    unfolding s' using k by (simp add: update_conv' register_apply dom_list_def setdefault_def)
  then show ?thesis by blast
qed

text \<open>
  C10. Marking a secondary record leaves a tier it already has, so a record that carries
  tier premium still has it after normalization, and a record inserted as new is stored
  with the tier it came with, all its domains registered to it. From then on the premium
  check of the DuckDuckGo pass, which looks only at the stored tier, finds a premium owner
  for any candidate one of whose domains is registered to such a record, and the candidate
  is merged by the enrichment path into the premium-tier record found (its id being a
  non-empty string).
\<close>

theorem self_assigned_premium:
  "(tier v \<noteq> None \<longrightarrow> mark_standard v = v)
   \<and> (tier v = Some ''premium'' \<longrightarrow> tier (normalize_vendor (mark_standard v)) = Some ''premium'')
   \<and> (insert_new suffix s0 w = Some s1 \<longrightarrow>
        (\<exists>k r. map_of (vendors_by_id s1) k = Some r \<and> tier r = tier w
           \<and> (\<forall>d \<in> set (dom_list w). domain_to_id s1 d = Some k)))
   \<and> (wf_state s \<and> domains (normalize_vendor c) = Some ds \<and> d \<in> set ds
        \<and> domain_to_id s d = Some i \<and> map_of (vendors_by_id s) i = Some r
        \<and> tier r = Some ''premium''
        \<longrightarrow> (\<exists>m e. find_premium s ds = Some (Some m) \<and> map_of (vendors_by_id s) m = Some e
               \<and> tier e = Some ''premium''
               \<and> (m \<noteq> [] \<longrightarrow> ddg_step s c = enrich s m (normalize_vendor c))))"
proof -
  have 1: "tier v \<noteq> None \<longrightarrow> mark_standard v = v"
    by (auto simp: mark_standard_def)
  have 2: "tier v = Some ''premium'' \<longrightarrow> tier (normalize_vendor (mark_standard v)) = Some ''premium''"
    by (auto simp: mark_standard_def normalize_vendor_def Let_def)
  have 4: "\<exists>m e. find_premium s ds = Some (Some m) \<and> map_of (vendors_by_id s) m = Some e
               \<and> tier e = Some ''premium''
               \<and> (m \<noteq> [] \<longrightarrow> ddg_step s c = enrich s m (normalize_vendor c))"
    if h: "wf_state s" "domains (normalize_vendor c) = Some ds" "d \<in> set ds"
        "domain_to_id s d = Some i" "map_of (vendors_by_id s) i = Some r"
        "tier r = Some ''premium''"
  proof -
    from find_premium_finds [OF h(1,3,4,5,6)] obtain m e where
      m: "find_premium s ds = Some (Some m)" "map_of (vendors_by_id s) m = Some e"
        "tier e = Some ''premium''"
      by blast
    with h(2) have "m \<noteq> [] \<longrightarrow> ddg_step s c = enrich s m (normalize_vendor c)"
      by (simp add: ddg_step_def truthy_def)
    with m show ?thesis by blast
  qed
  from 1 2 insert_new_stores [of suffix s0 w s1] 4 show ?thesis by blast
qed

lemma wf_holder_state: "wf_state holder_state"
proof -
  have "vendor_id (normalize_vendor premium_holder) = Some ''x''" by code_simp
  then show ?thesis
    by (simp add: wf_state_def holder_state_def normal_normalize)
qed

theorem self_assigned_premium_witness:
  "mark_standard premium_holder = premium_holder
   \<and> tier (normalize_vendor (mark_standard premium_holder)) = Some ''premium''
   \<and> wf_state holder_state
   \<and> domains (normalize_vendor (vendor_of ''y'' [''a.com'', ''p.com''])) = Some [''a.com'', ''p.com'']
   \<and> domain_to_id holder_state ''p.com'' = Some ''x''
   \<and> (\<exists>m e. find_premium holder_state [''a.com'', ''p.com''] = Some (Some m)
         \<and> map_of (vendors_by_id holder_state) m = Some e \<and> tier e = Some ''premium''
         \<and> (m \<noteq> [] \<longrightarrow> ddg_step holder_state (vendor_of ''y'' [''a.com'', ''p.com''])
               = enrich holder_state m (normalize_vendor (vendor_of ''y'' [''a.com'', ''p.com'']))))
   \<and> summary (merge_vendors []
        [vendor_of ''s'' [''a.com''], premium_holder, vendor_of ''y'' [''a.com'', ''p.com'']] [])
     = Some [(Some ''s'', Some [''a.com''], Some ''standard''),
             (Some ''x'', Some [''a.com'', ''p.com''], Some ''premium'')]"
proof -
  let ?c = "vendor_of ''y'' [''a.com'', ''p.com'']"
  let ?ds = "[''a.com'', ''p.com'']"
  let ?r = "normalize_vendor premium_holder"
  note sp = self_assigned_premium [of premium_holder "''-ddg''" init_state premium_holder
      holder_state holder_state ?c ?ds "''p.com''" "''x''" ?r]
  have t: "tier premium_holder = Some ''premium''" by (simp add: premium_holder_def)
  have nd: "domains (normalize_vendor ?c) = Some ?ds" by code_simp
  have ix: "domain_to_id holder_state ''p.com'' = Some ''x''" by (simp add: holder_state_def)
  have lk: "map_of (vendors_by_id holder_state) ''x'' = Some ?r" by (simp add: holder_state_def)
  have tr: "tier ?r = Some ''premium''" by code_simp
  have mem: "''p.com'' \<in> set ?ds" by simp
  from t have t': "tier premium_holder \<noteq> None" by simp
  from sp t t' have 1: "mark_standard premium_holder = premium_holder"
    "tier (normalize_vendor (mark_standard premium_holder)) = Some ''premium''"
    by blast+
  from sp wf_holder_state nd mem ix lk tr have 4:
    "\<exists>m e. find_premium holder_state ?ds = Some (Some m)
         \<and> map_of (vendors_by_id holder_state) m = Some e \<and> tier e = Some ''premium''
         \<and> (m \<noteq> [] \<longrightarrow> ddg_step holder_state ?c = enrich holder_state m (normalize_vendor ?c))"
    by blast
  have 5: "summary (merge_vendors []
        [vendor_of ''s'' [''a.com''], premium_holder, ?c] [])
     = Some [(Some ''s'', Some [''a.com''], Some ''standard''),
             (Some ''x'', Some [''a.com'', ''p.com''], Some ''premium'')]"
    by code_simp
  from 1 wf_holder_state nd ix 4 5 show ?thesis by blast
qed

section \<open>What a step does to the two indices\<close>

lemma vendor_id_normalize: "vendor_id (normalize_vendor v) = Some (normal_id v)"
  by (simp add: normalize_vendor_def normal_id_def Let_def)

lemma foldM_pres:
  assumes "foldM f xs s = Some s'" "I s"
    "\<And>s x s'. x \<in> set xs \<Longrightarrow> I s \<Longrightarrow> f s x = Some s' \<Longrightarrow> I s'"
  shows "I s'"
  using assms
proof (induction xs arbitrary: s)
  case Nil
  then show ?case by simp
next
  case (Cons x xs)
  from Cons.prems(1) obtain s1 where s1: "f s x = Some s1" "foldM f xs s1 = Some s'"
    by (auto split: option.splits)
  have "I s1"
    by (rule Cons.prems(3) [of x s]) (use Cons.prems(2) s1(1) in simp_all)
  with s1(2) show ?case by (rule Cons.IH) (use Cons.prems(3) in auto)
qed

lemma enrich_cases:
  assumes "enrich s m v = Some s'"
  obtains "s' = s"
  | e eds vds where "map_of (vendors_by_id s) m = Some e" "domains e = Some eds" "domains v = Some vds"
      "s' = \<lparr> domain_to_id = register (filter (\<lambda>d. d \<notin> set eds) vds) m (domain_to_id s),
              vendors_by_id = AList.update m
                (e\<lparr>domains := Some (sorted_set (eds @ filter (\<lambda>d. d \<notin> set eds) vds))\<rparr>)
                (vendors_by_id s) \<rparr>"
  using assms by (auto simp: enrich_def Let_def split: Option.bind_splits if_splits)

lemma absorb_cases:
  assumes "absorb s m v = Some s'"
  obtains e eds vds where "map_of (vendors_by_id s) m = Some e" "domains e = Some eds" "domains v = Some vds"
      "s' = \<lparr> domain_to_id = register vds m (domain_to_id s),
              vendors_by_id = AList.update m (e\<lparr>domains := Some (sorted_set (eds @ vds))\<rparr>)
                (vendors_by_id s) \<rparr>"
  using assms by (auto simp: absorb_def split: Option.bind_splits)

lemma insert_new_cases:
  assumes "insert_new suffix s v = Some s'"
  obtains k vds where "vendor_id v = Some k" "domains v = Some vds" "map_of (vendors_by_id s) k = None"
      "s' = \<lparr> domain_to_id = register vds k (domain_to_id s),
              vendors_by_id = AList.update k v (vendors_by_id s) \<rparr>"
  | k vds where "vendor_id v = Some k" "domains v = Some vds" "map_of (vendors_by_id s) k \<noteq> None"
      "s' = \<lparr> domain_to_id = register vds (k @ suffix) (domain_to_id s),
              vendors_by_id = AList.update (k @ suffix) (v\<lparr>vendor_id := Some (k @ suffix)\<rparr>)
                (vendors_by_id s) \<rparr>"
  using assms by (auto simp: insert_new_def Let_def split: Option.bind_splits if_splits)

lemma premium_step_cases:
  assumes "premium_step s v = Some s'"
  obtains ds where "domains (normalize_vendor v) = Some ds"
      "s' = \<lparr> domain_to_id = register ds (normal_id v) (domain_to_id s),
              vendors_by_id = AList.update (normal_id v) (normalize_vendor v) (vendors_by_id s) \<rparr>"
  using assms by (auto simp: premium_step_def Let_def vendor_id_normalize split: Option.bind_splits)

lemma ddg_step_cases:
  assumes "ddg_step s v = Some s'"
  obtains m where "enrich s m (normalize_vendor v) = Some s'"
  | m where "absorb s m (normalize_vendor v) = Some s'"
  | "insert_new ''-ddg'' s (normalize_vendor v) = Some s'"
  using assms by (auto simp: ddg_step_def Let_def split: Option.bind_splits if_splits)

lemma dc_step_cases:
  assumes "dc_step s v = Some s'"
  obtains m where "enrich s m (normalize_vendor v) = Some s'"
  | "insert_new ''-dc'' s (normalize_vendor v) = Some s'"
  using assms by (auto simp: dc_step_def Let_def split: Option.bind_splits if_splits)

lemma dom_list_simps:
  "domains r = Some ds \<Longrightarrow> dom_list r = ds"
  "dom_list (r\<lparr>domains := Some ds\<rparr>) = ds"
  "dom_list (r\<lparr>vendor_id := x\<rparr>) = dom_list r"
  by (simp_all add: dom_list_def setdefault_def)

lemma sorted_set_distinct: "distinct (sorted_set xs)"
  by (simp add: sorted_set_def)

section \<open>The domains lists of the output\<close>

lemma full_update:
  "full_domains s \<Longrightarrow> dom_list r \<noteq> [] \<Longrightarrow> distinct (dom_list r) \<Longrightarrow>
   full_domains \<lparr> domain_to_id = idx, vendors_by_id = AList.update k r (vendors_by_id s) \<rparr>"
  by (simp add: full_domains_def update_conv')

lemma full_lookup:
  "full_domains s \<Longrightarrow> map_of (vendors_by_id s) k = Some r \<Longrightarrow> dom_list r \<noteq> [] \<and> distinct (dom_list r)"
  unfolding full_domains_def by blast

lemma sorted_set_Nil_iff: "sorted_set xs = [] \<longleftrightarrow> xs = []"
  using sorted_set_set [of xs] by (metis set_empty)

lemma enrich_full: "enrich s m v = Some s' \<Longrightarrow> full_domains s \<Longrightarrow> full_domains s'"
proof (erule enrich_cases)
  show "full_domains s \<Longrightarrow> s' = s \<Longrightarrow> full_domains s'" by simp
next
  fix e eds vds
  assume f: "full_domains s" and e: "map_of (vendors_by_id s) m = Some e" "domains e = Some eds"
    and s': "s' = \<lparr> domain_to_id = register (filter (\<lambda>d. d \<notin> set eds) vds) m (domain_to_id s),
              vendors_by_id = AList.update m
                (e\<lparr>domains := Some (sorted_set (eds @ filter (\<lambda>d. d \<notin> set eds) vds))\<rparr>)
                (vendors_by_id s) \<rparr>"
  from full_lookup [OF f e(1)] e(2) have "eds \<noteq> []" by (simp add: dom_list_simps)
  then show "full_domains s'" unfolding s'
    by (intro full_update f) (simp_all add: dom_list_simps sorted_set_distinct sorted_set_Nil_iff)
qed

lemma absorb_full: "absorb s m v = Some s' \<Longrightarrow> full_domains s \<Longrightarrow> full_domains s'"
proof (erule absorb_cases)
  fix e eds vds
  assume f: "full_domains s" and e: "map_of (vendors_by_id s) m = Some e" "domains e = Some eds"
    and s': "s' = \<lparr> domain_to_id = register vds m (domain_to_id s),
              vendors_by_id = AList.update m (e\<lparr>domains := Some (sorted_set (eds @ vds))\<rparr>)
                (vendors_by_id s) \<rparr>"
  from full_lookup [OF f e(1)] e(2) have "eds \<noteq> []" by (simp add: dom_list_simps)
  then show "full_domains s'" unfolding s'
    by (intro full_update f) (simp_all add: dom_list_simps sorted_set_distinct sorted_set_Nil_iff)
qed

lemma insert_new_full:
  "insert_new suffix s v = Some s' \<Longrightarrow> full_domains s \<Longrightarrow> dom_list v \<noteq> [] \<Longrightarrow> distinct (dom_list v)
   \<Longrightarrow> full_domains s'"
  by (erule insert_new_cases) (auto intro!: full_update simp: dom_list_simps)

lemma premium_step_full:
  "premium_step s v = Some s' \<Longrightarrow> full_domains s \<Longrightarrow> dom_list (normalize_vendor v) \<noteq> []
   \<Longrightarrow> distinct (dom_list (normalize_vendor v)) \<Longrightarrow> full_domains s'"
  by (erule premium_step_cases) (auto intro!: full_update simp: dom_list_simps)

lemma ddg_step_full:
  "ddg_step s v = Some s' \<Longrightarrow> full_domains s \<Longrightarrow> dom_list (normalize_vendor v) \<noteq> []
   \<Longrightarrow> distinct (dom_list (normalize_vendor v)) \<Longrightarrow> full_domains s'"
  by (erule ddg_step_cases) (auto intro: enrich_full absorb_full insert_new_full)

lemma dc_step_full:
  "dc_step s v = Some s' \<Longrightarrow> full_domains s \<Longrightarrow> dom_list (normalize_vendor v) \<noteq> []
   \<Longrightarrow> distinct (dom_list (normalize_vendor v)) \<Longrightarrow> full_domains s'"
  by (erule dc_step_cases) (auto intro: enrich_full insert_new_full)

lemma dom_list_normalize_mark:
  "dom_list (normalize_vendor (mark_premium v)) = dom_list (normalize_vendor v)"
  "dom_list (normalize_vendor (mark_standard v)) = dom_list (normalize_vendor v)"
  by (simp_all add: dom_list_def normalize_vendor_def mark_premium_def mark_standard_def Let_def
       split: option.splits)

lemma merge_state_full:
  assumes "merge_state p d c = Some s"
    "\<forall>v \<in> set (p @ d @ c). dom_list (normalize_vendor v) \<noteq> [] \<and> distinct (dom_list (normalize_vendor v))"
  shows "full_domains s"
proof -
  from assms(1) obtain s1 s2 where
    s1: "foldM premium_step (map mark_premium p) init_state = Some s1"
    and s2: "foldM ddg_step (map mark_standard d) s1 = Some s2"
    and s3: "foldM dc_step (map mark_standard c) s2 = Some s"
    by (auto simp: merge_state_def split: Option.bind_splits)
  have f0: "full_domains init_state" by (simp add: full_domains_def init_state_def)
  have f1: "full_domains s1"
    by (rule foldM_pres [where I = full_domains, OF s1 f0]) (use assms(2) in \<open>auto intro: premium_step_full simp: dom_list_normalize_mark\<close>)
  have f2: "full_domains s2"
    by (rule foldM_pres [where I = full_domains, OF s2 f1]) (use assms(2) in \<open>auto intro: ddg_step_full simp: dom_list_normalize_mark\<close>)
  show ?thesis
    by (rule foldM_pres [where I = full_domains, OF s3 f2]) (use assms(2) in \<open>auto intro: dc_step_full simp: dom_list_normalize_mark\<close>)
qed

lemma dom_list_cleanup: "dom_list (cleanup_vendor v) = dom_list v"
  by (simp add: dom_list_def cleanup_fields_simps)

text \<open>
  C8, as amended. The merge always returns a list; in it every record has a domains list
  and each domain is a non-empty lower-case string. A domains list is non-empty and free of
  repetitions in every output record provided this holds of the normalized domains of
  every input record; an input record without domains, or with two spellings of one
  domain, passes into the output as it is.
\<close>

theorem output_domains:
  "\<exists>out. merge_vendors p d c = Some out
     \<and> (\<forall>r \<in> set out. \<exists>ds. domains r = Some ds \<and> (\<forall>x \<in> set ds. lowercase x \<and> x \<noteq> []))
     \<and> ((\<forall>v \<in> set (p @ d @ c).
           dom_list (normalize_vendor v) \<noteq> [] \<and> distinct (dom_list (normalize_vendor v)))
         \<longrightarrow> (\<forall>r \<in> set out. dom_list r \<noteq> [] \<and> distinct (dom_list r)))"
proof -
  from merge_vendors_form [of p d c] obtain s where s: "merge_state p d c = Some s" "wf_state s"
    and out: "merge_vendors p d c =
         Some (sort_key (\<lambda>v. the (vendor_id v)) (map (\<lambda>kv. cleanup_vendor (snd kv)) (vendors_by_id s)))"
    (is "_ = Some ?out")
    by blast
  from merge_vendors_ids [OF out] have "\<forall>r \<in> set ?out. normal r" by blast
  then have 1: "\<forall>r \<in> set ?out. \<exists>ds. domains r = Some ds \<and> (\<forall>x \<in> set ds. lowercase x \<and> x \<noteq> [])"
    unfolding normal_def by blast
  have 2: "\<forall>r \<in> set ?out. dom_list r \<noteq> [] \<and> distinct (dom_list r)"
    if h: "\<forall>v \<in> set (p @ d @ c).
           dom_list (normalize_vendor v) \<noteq> [] \<and> distinct (dom_list (normalize_vendor v))"
  proof
    fix r assume "r \<in> set ?out"
    then obtain kv where kv: "kv \<in> set (vendors_by_id s)" "r = cleanup_vendor (snd kv)" by auto
    from s(2) have "distinct (map fst (vendors_by_id s))" unfolding wf_state_def by blast
    with kv(1) have "map_of (vendors_by_id s) (fst kv) = Some (snd kv)"
      using map_of_is_SomeI [of "vendors_by_id s" "fst kv" "snd kv"] by simp
    with merge_state_full [OF s(1) h] kv(2) show "dom_list r \<noteq> [] \<and> distinct (dom_list r)"
      by (auto simp: dom_list_cleanup dest: full_lookup)
  qed
  from out 1 2 show ?thesis by blast
qed

theorem output_domains_witness:
  "list_all (\<lambda>v. dom_list (normalize_vendor v) \<noteq> [] \<and> distinct (dom_list (normalize_vendor v)))
     ([vendor_of ''acme'' [''Acme.com'']] @ [vendor_of ''t'' [''t.acme.com'', ''acme.com'']] @ [])
   \<and> (\<exists>out. merge_vendors [vendor_of ''acme'' [''Acme.com'']] [vendor_of ''t'' [''t.acme.com'', ''acme.com'']] []
          = Some out
        \<and> (\<forall>r \<in> set out. \<exists>ds. domains r = Some ds \<and> (\<forall>x \<in> set ds. lowercase x \<and> x \<noteq> []))
        \<and> (\<forall>r \<in> set out. dom_list r \<noteq> [] \<and> distinct (dom_list r)))"
proof -
  let ?p = "[vendor_of ''acme'' [''Acme.com'']]"
  let ?d = "[vendor_of ''t'' [''t.acme.com'', ''acme.com'']]"
  have h: "\<forall>v \<in> set (?p @ ?d @ []).
       dom_list (normalize_vendor v) \<noteq> [] \<and> distinct (dom_list (normalize_vendor v))"
    by code_simp
  from h have l: "list_all (\<lambda>v. dom_list (normalize_vendor v) \<noteq> [] \<and> distinct (dom_list (normalize_vendor v)))
     (?p @ ?d @ [])"
    unfolding list_all_iff .
  from output_domains [of ?p ?d "[]"] h have
    "\<exists>out. merge_vendors ?p ?d [] = Some out
        \<and> (\<forall>r \<in> set out. \<exists>ds. domains r = Some ds \<and> (\<forall>x \<in> set ds. lowercase x \<and> x \<noteq> []))
        \<and> (\<forall>r \<in> set out. dom_list r \<noteq> [] \<and> distinct (dom_list r))"
    by blast
  with l show ?thesis by (rule conjI)
qed

theorem output_domains_counterexample:
  "map_option (map domains)
     (merge_vendors [vendor_of ''x'' [], vendor_of ''y'' [''a.com'', ''A.com'']] [] [])
     = Some [Some [], Some [''a.com'', ''a.com'']]"
  by code_simp

section \<open>Premium records are kept\<close>

lemma keeps_update_other:
  "keeps n s \<Longrightarrow> vendor_id n \<noteq> Some k \<Longrightarrow>
   keeps n \<lparr> domain_to_id = idx, vendors_by_id = AList.update k r (vendors_by_id s) \<rparr>"
  by (auto simp: keeps_def update_conv')

lemma keeps_update_domains:
  assumes "keeps n s" "map_of (vendors_by_id s) m = Some e" "set (dom_list e) \<subseteq> set ds"
  shows "keeps n \<lparr> domain_to_id = idx,
            vendors_by_id = AList.update m (e\<lparr>domains := Some ds\<rparr>) (vendors_by_id s) \<rparr>"
proof (cases "vendor_id n = Some m")
  case True
  with assms show ?thesis
    by (auto simp: keeps_def update_conv' same_fields_def dom_list_simps)
next
  case False
  with assms(1) show ?thesis by (rule keeps_update_other)
qed

lemma enrich_keeps: "enrich s m v = Some s' \<Longrightarrow> keeps n s \<Longrightarrow> keeps n s'"
  by (erule enrich_cases) (auto intro!: keeps_update_domains simp: dom_list_simps sorted_set_set)

lemma absorb_keeps: "absorb s m v = Some s' \<Longrightarrow> keeps n s \<Longrightarrow> keeps n s'"
  by (erule absorb_cases) (auto intro!: keeps_update_domains simp: dom_list_simps sorted_set_set)

lemma insert_new_keeps:
  assumes "insert_new suffix s v = Some s'" "keeps n s"
    "\<forall>k. vendor_id v = Some k \<longrightarrow> vendor_id n \<noteq> Some (k @ suffix)"
  shows "keeps n s'"
  using assms(1)
proof (cases rule: insert_new_cases)
  case (1 k vds)
  from assms(2) 1(3) have "vendor_id n \<noteq> Some k" by (auto simp: keeps_def)
  with assms(2) show ?thesis unfolding 1(4) by (rule keeps_update_other)
next
  case (2 k vds)
  from assms(3) 2(1) have "vendor_id n \<noteq> Some (k @ suffix)" by simp
  with assms(2) show ?thesis unfolding 2(4) by (rule keeps_update_other)
qed

lemma ddg_step_keeps:
  "ddg_step s v = Some s' \<Longrightarrow> keeps n s \<Longrightarrow> vendor_id n \<noteq> Some (normal_id v @ ''-ddg'')
   \<Longrightarrow> keeps n s'"
  by (erule ddg_step_cases)
     (auto intro: enrich_keeps absorb_keeps insert_new_keeps simp: vendor_id_normalize)

lemma dc_step_keeps:
  "dc_step s v = Some s' \<Longrightarrow> keeps n s \<Longrightarrow> vendor_id n \<noteq> Some (normal_id v @ ''-dc'')
   \<Longrightarrow> keeps n s'"
  by (erule dc_step_cases)
     (auto intro: enrich_keeps insert_new_keeps simp: vendor_id_normalize)

lemma premium_step_keeps_other:
  "premium_step s v = Some s' \<Longrightarrow> keeps n s \<Longrightarrow> vendor_id n \<noteq> Some (normal_id v) \<Longrightarrow> keeps n s'"
  by (erule premium_step_cases) (auto intro: keeps_update_other)

lemma premium_step_keeps_self:
  "premium_step s v = Some s' \<Longrightarrow> keeps (normalize_vendor v) s'"
  by (erule premium_step_cases)
     (auto simp: keeps_def update_conv' same_fields_def vendor_id_normalize)

lemma premium_fold_keeps:
  assumes "foldM premium_step xs s = Some s'" "distinct (map normal_id xs)"
  shows "\<forall>r \<in> set xs. keeps (normalize_vendor r) s'"
  using assms
proof (induction xs arbitrary: s)
  case Nil
  then show ?case by simp
next
  case (Cons x xs)
  from Cons.prems(1) obtain s1 where s1: "premium_step s x = Some s1" "foldM premium_step xs s1 = Some s'"
    by (auto split: option.splits)
  have k1: "keeps (normalize_vendor x) s1" using s1(1) by (rule premium_step_keeps_self)
  have "keeps (normalize_vendor x) s'"
  proof (rule foldM_pres [where I = "keeps (normalize_vendor x)", OF s1(2) k1])
    fix t y t' assume y: "y \<in> set xs" "keeps (normalize_vendor x) t" "premium_step t y = Some t'"
    from Cons.prems(2) y(1) have "normal_id x \<noteq> normal_id y" by auto
    with y(2,3) show "keeps (normalize_vendor x) t'"
      by (auto intro: premium_step_keeps_other simp: vendor_id_normalize)
  qed
  moreover have "\<forall>r \<in> set xs. keeps (normalize_vendor r) s'"
    using s1(2) Cons.prems(2) by (intro Cons.IH) simp_all
  ultimately show ?case by simp
qed

lemma normal_id_mark: "normal_id (mark_premium v) = normal_id v" "normal_id (mark_standard v) = normal_id v"
  by (simp_all add: normal_id_def mark_premium_def mark_standard_def split: option.splits)

lemma normalize_mark_premium:
  "normalize_vendor (mark_premium v) = (normalize_vendor v)\<lparr>tier := Some ''premium''\<rparr>"
  by (simp add: normalize_vendor_def mark_premium_def Let_def)

text \<open>
  C3, as amended. Let the normalized ids of the premium records be pairwise distinct, and
  let no premium id be the id of a DuckDuckGo record followed by \<open>-ddg\<close> or the id of a
  Disconnect record followed by \<open>-dc\<close>. Then for every premium input record the output has
  a record with the id, name, company, category, risk score and GDPR flag of the normalized
  input record (defaults filled in, score clamped, unknown category replaced), with tier
  premium, and with all normalized domains of the input record among its domains.
\<close>

theorem premium_preserved:
  assumes "distinct (map normal_id premium)"
    and "\<forall>v \<in> set duckduckgo. \<forall>r \<in> set premium. normal_id r \<noteq> normal_id v @ ''-ddg''"
    and "\<forall>v \<in> set disconnect. \<forall>r \<in> set premium. normal_id r \<noteq> normal_id v @ ''-dc''"
  shows "\<exists>out. merge_vendors premium duckduckgo disconnect = Some out
     \<and> (\<forall>r \<in> set premium. \<exists>q \<in> set out.
           vendor_id q = vendor_id (normalize_vendor r)
         \<and> name q = name (normalize_vendor r)
         \<and> company q = company (normalize_vendor r)
         \<and> category q = category (normalize_vendor r)
         \<and> risk_score q = risk_score (normalize_vendor r)
         \<and> gdpr_compliant q = gdpr_compliant (normalize_vendor r)
         \<and> tier q = Some ''premium''
         \<and> set (dom_list (normalize_vendor r)) \<subseteq> set (dom_list q))"
proof -
  from merge_vendors_form [of premium duckduckgo disconnect] obtain s where
    s: "merge_state premium duckduckgo disconnect = Some s" "wf_state s"
    and out: "merge_vendors premium duckduckgo disconnect =
         Some (sort_key (\<lambda>v. the (vendor_id v)) (map (\<lambda>kv. cleanup_vendor (snd kv)) (vendors_by_id s)))"
    (is "_ = Some ?out")
    by blast
  from s(1) obtain s1 s2 where
    s1: "foldM premium_step (map mark_premium premium) init_state = Some s1"
    and s2: "foldM ddg_step (map mark_standard duckduckgo) s1 = Some s2"
    and s3: "foldM dc_step (map mark_standard disconnect) s2 = Some s"
    by (auto simp: merge_state_def split: Option.bind_splits)
  have "\<exists>q \<in> set ?out.
           vendor_id q = vendor_id (normalize_vendor r)
         \<and> name q = name (normalize_vendor r)
         \<and> company q = company (normalize_vendor r)
         \<and> category q = category (normalize_vendor r)
         \<and> risk_score q = risk_score (normalize_vendor r)
         \<and> gdpr_compliant q = gdpr_compliant (normalize_vendor r)
         \<and> tier q = Some ''premium''
         \<and> set (dom_list (normalize_vendor r)) \<subseteq> set (dom_list q)"
    if r: "r \<in> set premium" for r
  proof -
    let ?n = "normalize_vendor (mark_premium r)"
    have idn: "vendor_id ?n = Some (normal_id r)"
      by (simp add: vendor_id_normalize normal_id_mark)
    from assms(1) have "distinct (map normal_id (map mark_premium premium))"
      by (simp add: comp_def normal_id_mark)
    from premium_fold_keeps [OF s1 this] r have k1: "keeps ?n s1" by simp
    have k2: "keeps ?n s2"
    proof (rule foldM_pres [where I = "keeps ?n", OF s2 k1])
      fix t y t' assume y: "y \<in> set (map mark_standard duckduckgo)" "keeps ?n t" "ddg_step t y = Some t'"
      from y(1) assms(2) r have "normal_id r \<noteq> normal_id y @ ''-ddg''"
        by (auto simp: normal_id_mark)
      with y(2,3) idn show "keeps ?n t'" by (auto intro: ddg_step_keeps)
    qed
    have k3: "keeps ?n s"
    proof (rule foldM_pres [where I = "keeps ?n", OF s3 k2])
      fix t y t' assume y: "y \<in> set (map mark_standard disconnect)" "keeps ?n t" "dc_step t y = Some t'"
      from y(1) assms(3) r have "normal_id r \<noteq> normal_id y @ ''-dc''"
        by (auto simp: normal_id_mark)
      with y(2,3) idn show "keeps ?n t'" by (auto intro: dc_step_keeps)
    qed
    then obtain e where e: "map_of (vendors_by_id s) (normal_id r) = Some e" "same_fields ?n e"
      "set (dom_list ?n) \<subseteq> set (dom_list e)"
      using idn by (auto simp: keeps_def)
    from e(1) have "(normal_id r, e) \<in> set (vendors_by_id s)" by (rule map_of_SomeD)
    then have mem: "cleanup_vendor e \<in> set ?out" by force
    have fields: "same_fields ((normalize_vendor r)\<lparr>tier := Some ''premium''\<rparr>) e"
      using e(2) by (simp add: normalize_mark_premium)
    have doms: "set (dom_list (normalize_vendor r)) \<subseteq> set (dom_list e)"
      using e(3) by (simp add: dom_list_normalize_mark)
    from fields doms have
      "vendor_id (cleanup_vendor e) = vendor_id (normalize_vendor r)
         \<and> name (cleanup_vendor e) = name (normalize_vendor r)
         \<and> company (cleanup_vendor e) = company (normalize_vendor r)
         \<and> category (cleanup_vendor e) = category (normalize_vendor r)
         \<and> risk_score (cleanup_vendor e) = risk_score (normalize_vendor r)
         \<and> gdpr_compliant (cleanup_vendor e) = gdpr_compliant (normalize_vendor r)
         \<and> tier (cleanup_vendor e) = Some ''premium''
         \<and> set (dom_list (normalize_vendor r)) \<subseteq> set (dom_list (cleanup_vendor e))"
      by (simp add: same_fields_def cleanup_fields_simps dom_list_cleanup)
    with mem show ?thesis by blast
  qed
  with out show ?thesis by blast
qed

theorem premium_preserved_witness:
  "distinct (map normal_id [(vendor_of ''acme'' [''Acme.com''])\<lparr>risk_score := Some 47\<rparr>])
   \<and> (\<exists>out. merge_vendors [(vendor_of ''acme'' [''Acme.com''])\<lparr>risk_score := Some 47\<rparr>]
          [vendor_of ''acme'' [''t.acme.com'']] [vendor_of ''acme-track'' [''acme.com'', ''u.acme.com'']]
          = Some out
        \<and> (\<exists>q \<in> set out. vendor_id q = Some ''acme'' \<and> name q = Some ''acme''
              \<and> risk_score q = Some 10 \<and> tier q = Some ''premium''
              \<and> set [''acme.com''] \<subseteq> set (dom_list q)))"
proof -
  let ?r = "(vendor_of ''acme'' [''Acme.com''])\<lparr>risk_score := Some 47\<rparr>"
  let ?p = "[?r]"
  let ?d = "[vendor_of ''acme'' [''t.acme.com'']]"
  let ?c = "[vendor_of ''acme-track'' [''acme.com'', ''u.acme.com'']]"
  have h1: "distinct (map normal_id ?p)" by simp
  have h2: "\<forall>v \<in> set ?d. \<forall>r \<in> set ?p. normal_id r \<noteq> normal_id v @ ''-ddg''"
    by (simp add: normal_id_def setdefault_def vendor_of_def empty_vendor_def)
  have h3: "\<forall>v \<in> set ?c. \<forall>r \<in> set ?p. normal_id r \<noteq> normal_id v @ ''-dc''"
    by (simp add: normal_id_def setdefault_def vendor_of_def empty_vendor_def)
  have n: "vendor_id (normalize_vendor ?r) = Some ''acme''" "name (normalize_vendor ?r) = Some ''acme''"
    "risk_score (normalize_vendor ?r) = Some 10" "dom_list (normalize_vendor ?r) = [''acme.com'']"
    by code_simp+
  from premium_preserved [OF h1 h2 h3] obtain out where
    out: "merge_vendors ?p ?d ?c = Some out"
      "\<forall>r \<in> set ?p. \<exists>q \<in> set out.
           vendor_id q = vendor_id (normalize_vendor r)
         \<and> name q = name (normalize_vendor r)
         \<and> company q = company (normalize_vendor r)
         \<and> category q = category (normalize_vendor r)
         \<and> risk_score q = risk_score (normalize_vendor r)
         \<and> gdpr_compliant q = gdpr_compliant (normalize_vendor r)
         \<and> tier q = Some ''premium''
         \<and> set (dom_list (normalize_vendor r)) \<subseteq> set (dom_list q)"
    by blast
  from out(2) n have "\<exists>q \<in> set out. vendor_id q = Some ''acme'' \<and> name q = Some ''acme''
              \<and> risk_score q = Some 10 \<and> tier q = Some ''premium''
              \<and> set [''acme.com''] \<subseteq> set (dom_list q)"
    by auto
  with h1 out(1) show ?thesis by blast
qed

theorem premium_preserved_counterexample:
  "map_option (map risk_score)
     (merge_vendors [(vendor_of ''acme'' [''acme.com''])\<lparr>risk_score := Some 47\<rparr>] [] [])
     = Some [Some 10]
   \<and> risk_score ((vendor_of ''acme'' [''acme.com''])\<lparr>risk_score := Some 47\<rparr>) = Some 47"
  by code_simp

section \<open>Domain uniqueness\<close>

lemma owns_lookup:
  "owns s \<Longrightarrow> map_of (vendors_by_id s) k = Some r \<Longrightarrow> d \<in> set (dom_list r) \<Longrightarrow> domain_to_id s d = Some k"
  unfolding owns_def by blast

lemma owns_store:
  assumes "owns s" "set (dom_list r) \<subseteq> set new \<union> {d. domain_to_id s d = Some k}"
    "\<forall>d \<in> set new. domain_to_id s d = None \<or> domain_to_id s d = Some k"
  shows "owns \<lparr> domain_to_id = register new k (domain_to_id s),
               vendors_by_id = AList.update k r (vendors_by_id s) \<rparr>"
  unfolding owns_def
proof (intro allI impI ballI)
  fix j e d
  assume e: "map_of (vendors_by_id \<lparr> domain_to_id = register new k (domain_to_id s),
               vendors_by_id = AList.update k r (vendors_by_id s) \<rparr>) j = Some e"
    and d: "d \<in> set (dom_list e)"
  show "domain_to_id \<lparr> domain_to_id = register new k (domain_to_id s),
               vendors_by_id = AList.update k r (vendors_by_id s) \<rparr> d = Some j"
  proof (cases "j = k")
    case True
    with e have "e = r" by (simp add: update_conv')
    with d assms(2) True show ?thesis by (auto simp: register_apply)
  next
    case False
    with e have "map_of (vendors_by_id s) j = Some e" by (simp add: update_conv')
    from owns_lookup [OF assms(1) this d] have dj: "domain_to_id s d = Some j" .
    with assms(3) False have "d \<notin> set new" by auto
    with dj show ?thesis by (simp add: register_apply)
  qed
qed

lemma enrich_owns:
  assumes "enrich s m v = Some s'" "owns s"
    "\<forall>d \<in> set (dom_list v). domain_to_id s d = None \<or> domain_to_id s d = Some m"
  shows "owns s'"
  using assms(1)
proof (cases rule: enrich_cases)
  case 1
  with assms(2) show ?thesis by simp
next
  case (2 e eds vds)
  show ?thesis unfolding 2(4)
  proof (rule owns_store [OF assms(2)])
    have "\<forall>d \<in> set eds. domain_to_id s d = Some m"
      using owns_lookup [OF assms(2) 2(1)] 2(2) by (simp add: dom_list_simps)
    then show "set (dom_list (e\<lparr>domains := Some (sorted_set (eds @ filter (\<lambda>d. d \<notin> set eds) vds))\<rparr>))
      \<subseteq> set (filter (\<lambda>d. d \<notin> set eds) vds) \<union> {d. domain_to_id s d = Some m}"
      by (auto simp: dom_list_simps sorted_set_set)
    show "\<forall>d \<in> set (filter (\<lambda>d. d \<notin> set eds) vds). domain_to_id s d = None \<or> domain_to_id s d = Some m"
      using assms(3) 2(3) by (simp add: dom_list_simps)
  qed
qed

lemma absorb_owns:
  assumes "absorb s m v = Some s'" "owns s"
    "\<forall>d \<in> set (dom_list v). domain_to_id s d = None \<or> domain_to_id s d = Some m"
  shows "owns s'"
  using assms(1)
proof (cases rule: absorb_cases)
  case (1 e eds vds)
  show ?thesis unfolding 1(4)
  proof (rule owns_store [OF assms(2)])
    have "\<forall>d \<in> set eds. domain_to_id s d = Some m"
      using owns_lookup [OF assms(2) 1(1)] 1(2) by (simp add: dom_list_simps)
    then show "set (dom_list (e\<lparr>domains := Some (sorted_set (eds @ vds))\<rparr>))
      \<subseteq> set vds \<union> {d. domain_to_id s d = Some m}"
      by (auto simp: dom_list_simps sorted_set_set)
    show "\<forall>d \<in> set vds. domain_to_id s d = None \<or> domain_to_id s d = Some m"
      using assms(3) 1(3) by (simp add: dom_list_simps)
  qed
qed

lemma insert_new_owns:
  assumes "insert_new suffix s v = Some s'" "owns s"
    "\<forall>d \<in> set (dom_list v). domain_to_id s d = None"
  shows "owns s'"
  using assms(1)
proof (cases rule: insert_new_cases)
  case (1 k vds)
  show ?thesis unfolding 1(4)
    by (rule owns_store [OF assms(2)]) (use assms(3) 1(2) in \<open>auto simp: dom_list_simps\<close>)
next
  case (2 k vds)
  show ?thesis unfolding 2(4)
    by (rule owns_store [OF assms(2)]) (use assms(3) 2(2) in \<open>auto simp: dom_list_simps\<close>)
qed

lemma premium_step_owns:
  assumes "premium_step s v = Some s'" "owns s" "no_straddle s (premium_target s v) v"
  shows "owns s'"
  using assms(1)
proof (cases rule: premium_step_cases)
  case (1 ds)
  show ?thesis unfolding 1(2)
    by (rule owns_store [OF assms(2)])
       (use assms(3) 1(1) in \<open>auto simp: dom_list_simps no_straddle_def premium_target_def vendor_id_normalize\<close>)
qed

lemma ddg_step_owns:
  assumes "ddg_step s v = Some s'" "owns s" "no_straddle s (ddg_target s v) v"
  shows "owns s'"
proof -
  let ?n = "normalize_vendor v"
  have n: "normal ?n" by (rule normal_normalize)
  from assms(1) obtain ds mp where ds: "domains ?n = Some ds" and mp: "find_premium s ds = Some mp"
    by (auto simp: ddg_step_def Let_def split: Option.bind_splits)
  have dl: "dom_list ?n = ds" using ds by (simp add: dom_list_simps)
  show ?thesis
  proof (cases "truthy mp")
    case True
    then obtain m where m: "mp = Some m" by (auto simp: truthy_def split: option.splits)
    from True m mp dl have t: "ddg_target s v = Some m" by (simp add: ddg_target_def)
    from assms(1) ds mp True m have "enrich s m ?n = Some s'" by (simp add: ddg_step_def)
    then show ?thesis
      by (rule enrich_owns [OF _ assms(2)]) (use assms(3) t in \<open>simp add: no_straddle_def\<close>)
  next
    case False
    show ?thesis
    proof (cases "truthy (first_owner (domain_to_id s) ds)")
      case True
      then obtain m where m: "first_owner (domain_to_id s) ds = Some m"
        by (auto simp: truthy_def split: option.splits)
      from True False m mp dl have t: "ddg_target s v = Some m" by (simp add: ddg_target_def)
      from assms(1) ds mp True False m have "absorb s m ?n = Some s'" by (simp add: ddg_step_def)
      then show ?thesis
        by (rule absorb_owns [OF _ assms(2)]) (use assms(3) t in \<open>simp add: no_straddle_def\<close>)
    next
      case f2: False
      from f2 False mp dl have t: "ddg_target s v = None" by (simp add: ddg_target_def)
      from assms(1) ds mp f2 False have "insert_new ''-ddg'' s ?n = Some s'" by (simp add: ddg_step_def)
      then show ?thesis
        by (rule insert_new_owns [OF _ assms(2)]) (use assms(3) t in \<open>simp add: no_straddle_def\<close>)
    qed
  qed
qed

lemma dc_step_owns:
  assumes "dc_step s v = Some s'" "owns s" "no_straddle s (dc_target s v) v"
  shows "owns s'"
proof -
  let ?n = "normalize_vendor v"
  from assms(1) obtain ds where ds: "domains ?n = Some ds"
    by (auto simp: dc_step_def Let_def split: Option.bind_splits)
  have dl: "dom_list ?n = ds" using ds by (simp add: dom_list_simps)
  show ?thesis
  proof (cases "truthy (first_owner (domain_to_id s) ds)")
    case True
    then obtain m where m: "first_owner (domain_to_id s) ds = Some m"
      by (auto simp: truthy_def split: option.splits)
    from True m dl have t: "dc_target s v = Some m" by (simp add: dc_target_def)
    from assms(1) ds True m have "enrich s m ?n = Some s'" by (simp add: dc_step_def)
    then show ?thesis
      by (rule enrich_owns [OF _ assms(2)]) (use assms(3) t in \<open>simp add: no_straddle_def\<close>)
  next
    case False
    from False dl have t: "dc_target s v = None" by (simp add: dc_target_def)
    from assms(1) ds False have "insert_new ''-dc'' s ?n = Some s'" by (simp add: dc_step_def)
    then show ?thesis
      by (rule insert_new_owns [OF _ assms(2)]) (use assms(3) t in \<open>simp add: no_straddle_def\<close>)
  qed
qed

lemma clean_run_owns:
  assumes "clean_run step target vs s" "foldM step vs s = Some s'" "owns s"
    "\<And>s v s'. step s v = Some s' \<Longrightarrow> owns s \<Longrightarrow> no_straddle s (target s v) v \<Longrightarrow> owns s'"
  shows "owns s'"
  using assms(1,2,3)
proof (induction vs arbitrary: s)
  case Nil
  then show ?case by simp
next
  case (Cons v vs)
  from Cons.prems(2) obtain s1 where s1: "step s v = Some s1" "foldM step vs s1 = Some s'"
    by (auto split: option.splits)
  from Cons.prems(1) s1(1) have c: "no_straddle s (target s v) v" "clean_run step target vs s1"
    by simp_all
  from assms(4) [OF s1(1) Cons.prems(3) c(1)] have "owns s1" .
  with c(2) s1(2) show ?case by (rule Cons.IH)
qed

text \<open>
  C1, as amended. Domain uniqueness holds along every run in which no record straddles:
  when a record is processed, each of its normalized domains is either not yet in
  \<open>domain_to_id\<close> or registered to the very record that will hold it (its own id for a
  premium record; the matched record for a candidate that is merged; none at all for a
  candidate that is inserted as new). For a premium list this is the case when the
  premium records are pairwise domain-disjoint. Then the merge returns a list with
  pairwise distinct ids in which every domain lies in the domains list of exactly one
  record. Without the condition the claim fails: a candidate whose domains belong to two
  different owners is attached to the first one, and the other owner keeps its copy of the
  shared domain; two premium records that share a domain both keep it.
\<close>

theorem domain_uniqueness:
  assumes "clean_merge premium duckduckgo disconnect"
  shows "\<exists>out. merge_vendors premium duckduckgo disconnect = Some out
     \<and> distinct (map vendor_id out)
     \<and> (\<forall>r \<in> set out. \<forall>r' \<in> set out. \<forall>x.
           x \<in> set (dom_list r) \<and> x \<in> set (dom_list r') \<longrightarrow> r = r')"
proof -
  from merge_vendors_form [of premium duckduckgo disconnect] obtain s where
    s: "merge_state premium duckduckgo disconnect = Some s" "wf_state s"
    and out: "merge_vendors premium duckduckgo disconnect =
         Some (sort_key (\<lambda>v. the (vendor_id v)) (map (\<lambda>kv. cleanup_vendor (snd kv)) (vendors_by_id s)))"
    (is "_ = Some ?out")
    by blast
  from s(1) obtain s1 s2 where
    s1: "foldM premium_step (map mark_premium premium) init_state = Some s1"
    and s2: "foldM ddg_step (map mark_standard duckduckgo) s1 = Some s2"
    and s3: "foldM dc_step (map mark_standard disconnect) s2 = Some s"
    by (auto simp: merge_state_def split: Option.bind_splits)
  from assms s1 s2 have
    c1: "clean_run premium_step premium_target (map mark_premium premium) init_state"
    and c2: "clean_run ddg_step ddg_target (map mark_standard duckduckgo) s1"
    and c3: "clean_run dc_step dc_target (map mark_standard disconnect) s2"
    by (simp_all add: clean_merge_def)
  have o0: "owns init_state" by (simp add: owns_def init_state_def)
  have o1: "owns s1" using c1 s1 o0 by (rule clean_run_owns) (rule premium_step_owns)
  have o2: "owns s2" using c2 s2 o1 by (rule clean_run_owns) (rule ddg_step_owns)
  have o3: "owns s" using c3 s3 o2 by (rule clean_run_owns) (rule dc_step_owns)
  from merge_vendors_ids [OF out] have d: "distinct (map (\<lambda>v. the (vendor_id v)) ?out)"
    by blast
  have "distinct (map vendor_id ?out)"
  proof -
    have "map (\<lambda>v. the (vendor_id v)) ?out = map the (map vendor_id ?out)" by simp
    with d show ?thesis by (metis distinct_map)
  qed
  moreover have "r = r'"
    if r: "r \<in> set ?out" "r' \<in> set ?out" "x \<in> set (dom_list r)" "x \<in> set (dom_list r')" for r r' x
  proof -
    from s(2) have dk: "distinct (map fst (vendors_by_id s))" unfolding wf_state_def by blast
    from r(1) obtain kv where kv: "kv \<in> set (vendors_by_id s)" "r = cleanup_vendor (snd kv)" by auto
    from r(2) obtain kv' where kv': "kv' \<in> set (vendors_by_id s)" "r' = cleanup_vendor (snd kv')" by auto
    from dk kv(1) have m: "map_of (vendors_by_id s) (fst kv) = Some (snd kv)"
      using map_of_is_SomeI [of "vendors_by_id s" "fst kv" "snd kv"] by simp
    from dk kv'(1) have m': "map_of (vendors_by_id s) (fst kv') = Some (snd kv')"
      using map_of_is_SomeI [of "vendors_by_id s" "fst kv'" "snd kv'"] by simp
    from owns_lookup [OF o3 m] r(3) kv(2) have "domain_to_id s x = Some (fst kv)"
      by (simp add: dom_list_cleanup)
    moreover from owns_lookup [OF o3 m'] r(4) kv'(2) have "domain_to_id s x = Some (fst kv')"
      by (simp add: dom_list_cleanup)
    ultimately have "fst kv = fst kv'" by simp
    with m m' have "snd kv = snd kv'" by simp
    with kv(2) kv'(2) show ?thesis by simp
  qed
  ultimately show ?thesis using out by blast
qed

theorem domain_uniqueness_witness:
  "clean_merge [vendor_of ''acme'' [''acme.com''], vendor_of ''beta'' [''beta.io'']]
     [vendor_of ''acme-track'' [''acme.com'', ''t.acme.com'']]
     [vendor_of ''acme-track'' [''acme.com'']]
   \<and> (\<exists>out. merge_vendors [vendor_of ''acme'' [''acme.com''], vendor_of ''beta'' [''beta.io'']]
          [vendor_of ''acme-track'' [''acme.com'', ''t.acme.com'']]
          [vendor_of ''acme-track'' [''acme.com'']] = Some out
        \<and> distinct (map vendor_id out)
        \<and> (\<forall>r \<in> set out. \<forall>r' \<in> set out. \<forall>x.
              x \<in> set (dom_list r) \<and> x \<in> set (dom_list r') \<longrightarrow> r = r'))"
proof -
  have h: "clean_merge [vendor_of ''acme'' [''acme.com''], vendor_of ''beta'' [''beta.io'']]
     [vendor_of ''acme-track'' [''acme.com'', ''t.acme.com'']]
     [vendor_of ''acme-track'' [''acme.com'']]"
    by code_simp
  from h domain_uniqueness [OF h] show ?thesis by (rule conjI)
qed

theorem domain_uniqueness_counterexample:
  "summary (merge_vendors []
      [vendor_of ''x'' [''a.com''], vendor_of ''y'' [''b.com''], vendor_of ''z'' [''a.com'', ''b.com'']] [])
     = Some [(Some ''x'', Some [''a.com'', ''b.com''], Some ''standard''),
             (Some ''y'', Some [''b.com''], Some ''standard'')]
   \<and> summary (merge_vendors [vendor_of ''p'' [''x.com''], vendor_of ''q'' [''x.com'']] [] [])
     = Some [(Some ''p'', Some [''x.com''], Some ''premium''),
             (Some ''q'', Some [''x.com''], Some ''premium'')]"
  by code_simp

text \<open>
  The premium pass runs without straddling when the normalized domains of the premium
  records are pairwise disjoint.
\<close>

lemma premium_clean_run:
  assumes "disjoint_domains xs"
    "\<forall>x \<in> set xs. \<forall>d \<in> set (dom_list (normalize_vendor x)). domain_to_id s d = None"
  shows "clean_run premium_step premium_target (map mark_premium xs) s"
  using assms
proof (induction xs arbitrary: s)
  case Nil
  then show ?case by simp
next
  case (Cons x xs)
  let ?n = "normalize_vendor (mark_premium x)"
  obtain ds where ds: "domains ?n = Some ds"
    using normal_normalize [of "mark_premium x"] by (auto simp: normal_def)
  then have dl: "dom_list (normalize_vendor x) = ds"
    using dom_list_normalize_mark(1) [of x] by (simp add: dom_list_simps)
  let ?s1 = "\<lparr> domain_to_id = register ds (normal_id (mark_premium x)) (domain_to_id s),
       vendors_by_id = AList.update (normal_id (mark_premium x)) ?n (vendors_by_id s) \<rparr>"
  from ds have step: "premium_step s (mark_premium x) = Some ?s1"
    by (simp add: premium_step_def vendor_id_normalize)
  from Cons.prems(2) have ns: "no_straddle s (premium_target s (mark_premium x)) (mark_premium x)"
    by (simp add: no_straddle_def dom_list_normalize_mark)
  have "clean_run premium_step premium_target (map mark_premium xs) ?s1"
  proof (rule Cons.IH)
    show "disjoint_domains xs" using Cons.prems(1) by simp
    show "\<forall>w \<in> set xs. \<forall>d \<in> set (dom_list (normalize_vendor w)). domain_to_id ?s1 d = None"
    proof (intro ballI)
      fix w d assume w: "w \<in> set xs" and d: "d \<in> set (dom_list (normalize_vendor w))"
      from Cons.prems(1) w d dl have "d \<notin> set ds" by auto
      moreover from Cons.prems(2) w d have "domain_to_id s d = None" by simp
      ultimately show "domain_to_id ?s1 d = None" by (simp add: register_apply)
    qed
  qed
  with ns step show ?case by simp
qed

lemma disjoint_premium_clean:
  "disjoint_domains premium \<Longrightarrow>
   clean_run premium_step premium_target (map mark_premium premium) init_state"
  by (rule premium_clean_run) (simp_all add: init_state_def)

section \<open>Two failing inputs\<close>

text \<open>
  C2. The DuckDuckGo pass checks for a premium owner first, the Disconnect pass has no such
  check: it takes the owner of the first registered domain, premium or not. With premium
  \<open>p\<close> owning \<open>p.com\<close> and the DuckDuckGo record \<open>x\<close> owning \<open>a.com\<close>, the
  Disconnect candidate with domains \<open>a.com, p.com\<close> is merged into the standard record
  \<open>x\<close>, which then lists the premium record's domain \<open>p.com\<close>. The same candidate in the
  DuckDuckGo list is merged into the premium record \<open>p\<close>.
\<close>

theorem disconnect_skips_premium_check:
  "summary (merge_vendors [vendor_of ''p'' [''p.com'']] [vendor_of ''x'' [''a.com'']]
      [vendor_of ''z'' [''a.com'', ''p.com'']])
     = Some [(Some ''p'', Some [''p.com''], Some ''premium''),
             (Some ''x'', Some [''a.com'', ''p.com''], Some ''standard'')]
   \<and> summary (merge_vendors [vendor_of ''p'' [''p.com'']]
      [vendor_of ''x'' [''a.com''], vendor_of ''z'' [''a.com'', ''p.com'']] [])
     = Some [(Some ''p'', Some [''a.com'', ''p.com''], Some ''premium''),
             (Some ''x'', Some [''a.com''], Some ''standard'')]"
  by code_simp

text \<open>
  C4. The ids of the output are pairwise distinct, but the rename does not protect the
  record that already has the suffixed id: the renamed candidate is stored under
  \<open>id-ddg\<close> without a second look-up. Of the three DuckDuckGo records \<open>foo\<close>,
  \<open>foo-ddg\<close> and \<open>foo\<close> with disjoint domains only two are left, and \<open>b.com\<close>, the
  domain of the overwritten record, is in no output record.
\<close>

theorem rename_overwrites_record:
  "summary (merge_vendors []
      [vendor_of ''foo'' [''a.com''], vendor_of ''foo-ddg'' [''b.com''], vendor_of ''foo'' [''c.com'']] [])
     = Some [(Some ''foo'', Some [''a.com''], Some ''standard''),
             (Some ''foo-ddg'', Some [''c.com''], Some ''standard'')]"
  by code_simp

end
